theory Spec2Isabelle
  imports Main "HOL-Library.Monad_Syntax" "HOL-Library.Multiset"
begin

section \<open>The server-side publish engine of node-opcua\<close>

text \<open>
  This theory embeds the class \<^verbatim>\<open>ServerSidePublishEngine\<close> of
  \<^verbatim>\<open>src/lib/findservers.js\<close> (lines 64 to 577). A method of the class is a function
  from the engine before the call to the engine after it. A call that throws (a failed
  \<^verbatim>\<open>assert\<close> of better-assert, or a property read on \<^verbatim>\<open>null\<close>) has the value
  \<open>None\<close>; the development follows the engine over the calls that return.

  Leading underscores of the source's names are dropped, as an Isabelle name cannot
  start with one: \<^verbatim>\<open>_on_PublishRequest\<close> is \<open>on_PublishRequest\<close>.
\<close>

subsection \<open>Status codes, requests and responses\<close>

text \<open>
  The status codes the engine and its collaborators name
  (\<^verbatim>\<open>lib/datamodel/opcua_status_code\<close> is imported, only the names matter here).
\<close>

datatype StatusCode =
    Good
  | BadSubscriptionIdInvalid
  | BadSessionClosed
  | BadNoSubscription
  | BadTooManyPublishRequests
  | BadTimeout
  | BadSecureChannelClosed
  | BadSequenceNumberUnknown
  | BadSequenceNumberInvalid
  | GoodSubscriptionTransferred

datatype SubscriptionState = CREATING | NORMAL | LATE | KEEPALIVE | CLOSED

text \<open>
  A \<^verbatim>\<open>PublishRequest\<close>: the two fields of its request header, its acknowledgements
  (pairs of subscription id and sequence number), and the two properties that
  \<^verbatim>\<open>prepare_timeout_info\<close> adds to the object (\<open>None\<close> while they are undefined).
  Times are milliseconds, as \<^verbatim>\<open>(new Date()).getTime()\<close> gives them.
\<close>

record PublishRequest =
  requestHeader_requestHandle :: nat
  requestHeader_timeoutHint :: int
  subscriptionAcknowledgements :: "(nat \<times> nat) list"
  received_time :: "int option"
  timeout_time :: "int option"

datatype Notification =
    DataChangeNotification nat
  | EventNotification nat
  | StatusChangeNotification StatusCode

record NotificationMessage =
  sequenceNumber :: nat
  publishTime :: int
  notificationData :: "Notification list"

text \<open>
  A \<^verbatim>\<open>PublishResponse\<close>. A field that the constructor call does not give is \<open>None\<close>
  (it holds the default of the schema, which is not part of the engine). The request
  handle of the response header is read by an assertion before it is overwritten, so it
  is a number: a fresh response holds the schema's default for it, the parameter \<open>dh\<close>
  of the functions below.
\<close>

record PublishResponse =
  responseHeader_requestHandle :: nat
  responseHeader_serviceResult :: "StatusCode option"
  subscriptionId :: "nat option"
  availableSequenceNumbers :: "nat list option"
  moreNotifications :: "bool option"
  notificationMessage :: "NotificationMessage option"
  response_results :: "StatusCode list option"

text \<open>The argument \<^verbatim>\<open>param\<close> of \<^verbatim>\<open>send_notification_message\<close>.\<close>

record notification_param =
  param_subscriptionId :: nat
  param_sequenceNumber :: nat
  param_notificationData :: "Notification list"
  param_moreNotifications :: bool

text \<open>
  A callback is a function of the caller; the engine only calls it. It is a token here,
  and \<^verbatim>\<open>dummy_function\<close> is the one the engine supplies when none is given.
\<close>

datatype callback_fn = dummy_function | Callback nat

text \<open>The object \<^verbatim>\<open>{ request, results, callback }\<close> held in the request queue.\<close>

record publishData =
  request :: PublishRequest
  results :: "StatusCode list"
  callback :: callback_fn

subsection \<open>Subscriptions\<close>

text \<open>
  \<^verbatim>\<open>lib/server/Subscription\<close> is imported by the engine and is not part of the
  embedded file. A subscription is the properties the engine reads, and, for each method
  the engine calls, what the call gives back: its result, or the calls it makes on the
  engine in turn.
\<close>

datatype engine_call =
    Send_notification_message notification_param bool
  | Send_keep_alive_response nat nat

record Subscription =
  id_sub :: nat
  priority :: nat
  publishingEnabled :: bool
  state :: SubscriptionState
  messageSent :: bool
  timeToExpiration :: int
  hasPendingNotifications :: bool
  nextSequenceNumber :: nat
  publishEngine :: "nat option"
  getAvailableSequenceNumbers :: "nat list"
  acknowledgeNotification :: "(nat \<times> StatusCode) list"
  process_subscription :: "engine_call list"
  publish_pending_notifications :: "engine_call list"

datatype subscription_method =
    Process_subscription
  | Publish_pending_notifications
  | NotifyTransfer
  | ResetLifeTimeCounter
  | ResendInitialValues

subsection \<open>The engine\<close>

text \<open>
  The six fields the constructor sets, and two traces of what the engine does to the
  outside: \<open>callback_calls\<close> lists the calls \<^verbatim>\<open>publishData.callback(request, response)\<close>
  in the order they are made, \<open>subscription_calls\<close> the subscription methods the engine
  invokes, by subscription id.

  \<open>subscriptions\<close> is the object \<^verbatim>\<open>_subscriptions\<close>, whose keys are subscription ids:
  a list of key and value in the order JavaScript enumerates integer keys, ascending.
\<close>

record ServerSidePublishEngine =
  publish_request_queue :: "publishData list"
  publish_response_queue :: "PublishResponse list"
  subscriptions :: "(nat \<times> Subscription) list"
  closed_subscriptions :: "Subscription list"
  maxPublishRequestInQueue :: nat
  isSessionClosed :: bool
  callback_calls :: "(callback_fn \<times> PublishRequest \<times> PublishResponse) list"
  subscription_calls :: "(nat \<times> subscription_method) list"

definition constructor :: "nat option \<Rightarrow> ServerSidePublishEngine" where
  "constructor options =
     \<lparr> publish_request_queue = [],
       publish_response_queue = [],
       subscriptions = [],
       closed_subscriptions = [],
       maxPublishRequestInQueue =
         (case options of None \<Rightarrow> 100 | Some n \<Rightarrow> if n = 0 then 100 else n),
       isSessionClosed = False,
       callback_calls = [],
       subscription_calls = [] \<rparr>"

text \<open>\<^verbatim>\<open>assert(c)\<close> throws when \<open>c\<close> is false.\<close>

definition assert :: "bool \<Rightarrow> unit option" where
  "assert c = (if c then Some () else None)"

text \<open>Reading, writing and deleting a property of an object with integer keys.\<close>

fun object_set :: "nat \<Rightarrow> 'v \<Rightarrow> (nat \<times> 'v) list \<Rightarrow> (nat \<times> 'v) list" where
  "object_set k v [] = [(k, v)]"
| "object_set k v ((k', v') # kvs) =
     (if k < k' then (k, v) # (k', v') # kvs
      else if k = k' then (k, v) # kvs
      else (k', v') # object_set k v kvs)"

definition object_delete :: "nat \<Rightarrow> (nat \<times> 'v) list \<Rightarrow> (nat \<times> 'v) list" where
  "object_delete k kvs = filter (\<lambda>kv. fst kv \<noteq> k) kvs"

definition getSubscriptionById :: "nat \<Rightarrow> ServerSidePublishEngine \<Rightarrow> Subscription option" where
  "getSubscriptionById k e = map_of (subscriptions e) k"

definition pendingPublishRequestCount :: "ServerSidePublishEngine \<Rightarrow> nat" where
  "pendingPublishRequestCount e = length (publish_request_queue e)"

definition subscriptionCount :: "ServerSidePublishEngine \<Rightarrow> nat" where
  "subscriptionCount e = length (subscriptions e)"

definition process_subscriptionAcknowledgements ::
  "(nat \<times> nat) list \<Rightarrow> ServerSidePublishEngine \<Rightarrow> StatusCode list" where
  "process_subscriptionAcknowledgements acks e =
     map (\<lambda>subscriptionAcknowledgement.
            case getSubscriptionById (fst subscriptionAcknowledgement) e of
              None \<Rightarrow> BadSubscriptionIdInvalid
            | Some subscription \<Rightarrow>
                (case map_of (acknowledgeNotification subscription)
                        (snd subscriptionAcknowledgement) of
                   Some statusCode \<Rightarrow> statusCode
                 | None \<Rightarrow> BadSequenceNumberUnknown))
         acks"

subsection \<open>Answering a request\<close>

text \<open>
  Lines 373 and 374: the response as the callback receives it, with the results of the
  acknowledgements and the request handle of the request it answers.
\<close>

definition delivered_response :: "publishData \<Rightarrow> PublishResponse \<Rightarrow> PublishResponse" where
  "delivered_response pd response =
     response\<lparr> response_results := Some (results pd),
               responseHeader_requestHandle := requestHeader_requestHandle (request pd) \<rparr>"

definition send_response_for_request ::
  "publishData \<Rightarrow> PublishResponse \<Rightarrow> ServerSidePublishEngine \<Rightarrow> ServerSidePublishEngine option" where
  "send_response_for_request pd response e = do {
     assert (responseHeader_requestHandle response \<noteq> 0);
     Some (e\<lparr> callback_calls := callback_calls e
                @ [(callback pd, request pd, delivered_response pd response)] \<rparr>)
   }"

text \<open>
  \<^verbatim>\<open>new PublishResponse({ responseHeader: { serviceResult: statusCode } })\<close>: a response
  that carries a status and nothing else.
\<close>

definition status_response :: "nat \<Rightarrow> StatusCode \<Rightarrow> PublishResponse" where
  "status_response dh statusCode =
     \<lparr> responseHeader_requestHandle = dh,
       responseHeader_serviceResult = Some statusCode,
       subscriptionId = None,
       availableSequenceNumbers = None,
       moreNotifications = None,
       notificationMessage = None,
       response_results = None \<rparr>"

definition send_error_for_request ::
  "nat \<Rightarrow> publishData \<Rightarrow> StatusCode \<Rightarrow> ServerSidePublishEngine \<Rightarrow> ServerSidePublishEngine option" where
  "send_error_for_request dh pd statusCode e =
     send_response_for_request pd (status_response dh statusCode) e"

text \<open>\<^verbatim>\<open>xs.forEach(f)\<close> for an \<open>f\<close> that changes the engine and may throw.\<close>

fun forEach :: "('a \<Rightarrow> 's \<Rightarrow> 's option) \<Rightarrow> 'a list \<Rightarrow> 's \<Rightarrow> 's option" where
  "forEach f [] e = Some e"
| "forEach f (x # xs) e = (case f x e of None \<Rightarrow> None | Some e' \<Rightarrow> forEach f xs e')"

definition cancelPendingPublishRequest_with ::
  "nat \<Rightarrow> StatusCode \<Rightarrow> ServerSidePublishEngine \<Rightarrow> ServerSidePublishEngine option" where
  "cancelPendingPublishRequest_with dh statusCode e = do {
     e1 \<leftarrow> forEach (\<lambda>pd. send_error_for_request dh pd statusCode) (publish_request_queue e) e;
     Some (e1\<lparr> publish_request_queue := [] \<rparr>)
   }"

definition cancelPendingPublishRequestBeforeChannelChange ::
  "nat \<Rightarrow> ServerSidePublishEngine \<Rightarrow> ServerSidePublishEngine option" where
  "cancelPendingPublishRequestBeforeChannelChange dh e =
     cancelPendingPublishRequest_with dh BadSecureChannelClosed e"

definition cancelPendingPublishRequest ::
  "nat \<Rightarrow> ServerSidePublishEngine \<Rightarrow> ServerSidePublishEngine option" where
  "cancelPendingPublishRequest dh e = do {
     assert (subscriptionCount e = 0);
     cancelPendingPublishRequest_with dh BadNoSubscription e
   }"

definition onSessionClose ::
  "nat \<Rightarrow> ServerSidePublishEngine \<Rightarrow> ServerSidePublishEngine option" where
  "onSessionClose dh e =
     cancelPendingPublishRequest_with dh BadSessionClosed (e\<lparr> isSessionClosed := True \<rparr>)"

definition handle_too_many_requests ::
  "nat \<Rightarrow> ServerSidePublishEngine \<Rightarrow> ServerSidePublishEngine option" where
  "handle_too_many_requests dh e =
     (if pendingPublishRequestCount e > maxPublishRequestInQueue e then do {
        assert (pendingPublishRequestCount e = maxPublishRequestInQueue e + 1);
        (case publish_request_queue e of
           [] \<Rightarrow> None
         | pd # rest \<Rightarrow>
             send_error_for_request dh pd BadTooManyPublishRequests
               (e\<lparr> publish_request_queue := rest \<rparr>))
      } else Some e)"

subsection \<open>Notifications\<close>

text \<open>
  \<^verbatim>\<open>send_notification_message(param, force)\<close> at the time \<open>now\<close>. The four assertions on
  the properties of \<^verbatim>\<open>param\<close> hold of every \<^typ>\<open>notification_param\<close>.
  \<open>notification_response\<close> is the \<^verbatim>\<open>new PublishResponse({ ... })\<close> of lines 335 to 344.
\<close>

definition notification_response ::
  "nat \<Rightarrow> int \<Rightarrow> notification_param \<Rightarrow> nat list \<Rightarrow> PublishResponse" where
  "notification_response dh now param available =
     \<lparr> responseHeader_requestHandle = dh,
       responseHeader_serviceResult = None,
       subscriptionId = Some (param_subscriptionId param),
       availableSequenceNumbers = Some available,
       moreNotifications = Some (param_moreNotifications param),
       notificationMessage =
         Some \<lparr> sequenceNumber = param_sequenceNumber param,
                publishTime = now,
                notificationData = param_notificationData param \<rparr>,
       response_results = None \<rparr>"

definition send_notification_message ::
  "nat \<Rightarrow> int \<Rightarrow> notification_param \<Rightarrow> bool \<Rightarrow> ServerSidePublishEngine
     \<Rightarrow> ServerSidePublishEngine option" where
  "send_notification_message dh now param force e = do {
     assert (pendingPublishRequestCount e > 0 \<or> force);
     let subscription = getSubscriptionById (param_subscriptionId param) e;
     let available = (case subscription of
                        Some s \<Rightarrow> getAvailableSequenceNumbers s
                      | None \<Rightarrow> []);
     let response = notification_response dh now param available;
     if pendingPublishRequestCount e = 0
     then Some (e\<lparr> publish_response_queue := publish_response_queue e @ [response] \<rparr>)
     else (case publish_request_queue e of
             [] \<Rightarrow> None
           | pd # rest \<Rightarrow>
               send_response_for_request pd response (e\<lparr> publish_request_queue := rest \<rparr>))
   }"

definition send_keep_alive_response ::
  "nat \<Rightarrow> int \<Rightarrow> nat \<Rightarrow> nat \<Rightarrow> ServerSidePublishEngine
     \<Rightarrow> (bool \<times> ServerSidePublishEngine) option" where
  "send_keep_alive_response dh now k future_sequence_number e =
     (case getSubscriptionById k e of
        None \<Rightarrow> Some (False, e)
      | Some subscription \<Rightarrow>
          if pendingPublishRequestCount e = 0 then Some (False, e)
          else do {
            e1 \<leftarrow> send_notification_message dh now
                    \<lparr> param_subscriptionId = k,
                      param_sequenceNumber = future_sequence_number,
                      param_notificationData = [],
                      param_moreNotifications = False \<rparr>
                    False e;
            Some (True, e1)
          })"

text \<open>
  What a method of a subscription does to the engine: the calls it makes, one after the
  other; the first one that throws ends them.
\<close>

fun perform_call :: "nat \<Rightarrow> int \<Rightarrow> engine_call \<Rightarrow> ServerSidePublishEngine
    \<Rightarrow> ServerSidePublishEngine option" where
  "perform_call dh now (Send_notification_message param force) e =
     send_notification_message dh now param force e"
| "perform_call dh now (Send_keep_alive_response k n) e =
     map_option snd (send_keep_alive_response dh now k n e)"

definition perform_calls :: "nat \<Rightarrow> int \<Rightarrow> engine_call list \<Rightarrow> ServerSidePublishEngine
    \<Rightarrow> ServerSidePublishEngine option" where
  "perform_calls dh now cs e = forEach (perform_call dh now) cs e"

subsection \<open>Choosing the subscription to feed\<close>

text \<open>
  \<^verbatim>\<open>_.sortBy(list, "timeToExpiration")\<close> of underscore: a stable sort, ascending.
\<close>

definition sortBy :: "('a \<Rightarrow> int) \<Rightarrow> 'a list \<Rightarrow> 'a list" where
  "sortBy criteria xs = sort_key criteria xs"

definition findSubscriptionWaitingForFirstPublish ::
  "ServerSidePublishEngine \<Rightarrow> Subscription option" where
  "findSubscriptionWaitingForFirstPublish e =
     (let subscriptions_waiting_for_first_reply =
            filter (\<lambda>subscription. \<not> messageSent subscription \<and> state subscription = LATE)
              (map snd (subscriptions e))
      in if length subscriptions_waiting_for_first_reply \<noteq> 0
         then (case sortBy timeToExpiration subscriptions_waiting_for_first_reply of
                 [] \<Rightarrow> None
               | s # _ \<Rightarrow> Some s)
         else None)"

definition findLateSubscriptions :: "ServerSidePublishEngine \<Rightarrow> Subscription list" where
  "findLateSubscriptions e =
     filter (\<lambda>subscription. state subscription = LATE \<and> publishingEnabled subscription)
       (map snd (subscriptions e))"

text \<open>
  \<^verbatim>\<open>compare_subscriptions\<close> returns a boolean. \<^verbatim>\<open>Array.prototype.sort\<close> takes the
  number of what its comparison function returns: 1 for \<^verbatim>\<open>true\<close>, 0 for \<^verbatim>\<open>false\<close>.
\<close>

definition compare_subscriptions :: "Subscription \<Rightarrow> Subscription \<Rightarrow> bool" where
  "compare_subscriptions s1 s2 =
     (if priority s1 = priority s2 then timeToExpiration s1 < timeToExpiration s2
      else priority s1 > priority s2)"

definition ToNumber :: "bool \<Rightarrow> int" where
  "ToNumber b = (if b then 1 else 0)"

text \<open>
  \<^verbatim>\<open>Array.prototype.sort(comparefn)\<close> is a built-in of the JavaScript engine. ECMAScript
  fixes the order of its result only for a consistent comparison function (one that
  returns a negative number for "before", a positive one for "after"); for any other the
  order is left to the implementation. The sort of V8 since its version 7.0 (Node.js 11
  and later) takes the elements from left to right and moves an element to the left of an
  earlier one only when \<^verbatim>\<open>comparefn(element, earlier)\<close> is negative, in its search for
  runs and in its binary insertion alike. \<open>Array_sort\<close> is the stable insertion sort with
  that test; \<open>insert_pivot\<close> holds the sorted prefix right to left.
\<close>

fun insert_pivot :: "('a \<Rightarrow> 'a \<Rightarrow> int) \<Rightarrow> 'a \<Rightarrow> 'a list \<Rightarrow> 'a list" where
  "insert_pivot comparefn pivot [] = [pivot]"
| "insert_pivot comparefn pivot (y # ys) =
     (if comparefn pivot y < 0 then y # insert_pivot comparefn pivot ys
      else pivot # y # ys)"

definition Array_sort :: "('a \<Rightarrow> 'a \<Rightarrow> int) \<Rightarrow> 'a list \<Rightarrow> 'a list" where
  "Array_sort comparefn xs = rev (foldl (\<lambda>run x. insert_pivot comparefn x run) [] xs)"

definition findLateSubscriptionSortedByPriority ::
  "ServerSidePublishEngine \<Rightarrow> Subscription option" where
  "findLateSubscriptionSortedByPriority e =
     (let late_subscriptions = findLateSubscriptions e
      in if length late_subscriptions = 0 then None
         else (case rev (Array_sort (\<lambda>s1 s2. ToNumber (compare_subscriptions s1 s2))
                           late_subscriptions) of
                 [] \<Rightarrow> None
               | s # _ \<Rightarrow> Some s))"

definition feed_late_subscription ::
  "nat \<Rightarrow> int \<Rightarrow> ServerSidePublishEngine \<Rightarrow> ServerSidePublishEngine option" where
  "feed_late_subscription dh now e =
     (if pendingPublishRequestCount e = 0 then Some e
      else (case (case findSubscriptionWaitingForFirstPublish e of
                    Some s \<Rightarrow> Some s
                  | None \<Rightarrow> findLateSubscriptionSortedByPriority e) of
              None \<Rightarrow> Some e
            | Some starving_subscription \<Rightarrow>
                perform_calls dh now (process_subscription starving_subscription)
                  (e\<lparr> subscription_calls := subscription_calls e
                         @ [(id_sub starving_subscription, Process_subscription)] \<rparr>)))"

definition feed_closed_subscription ::
  "nat \<Rightarrow> int \<Rightarrow> ServerSidePublishEngine \<Rightarrow> (bool \<times> ServerSidePublishEngine) option" where
  "feed_closed_subscription dh now e =
     (if pendingPublishRequestCount e = 0 then Some (False, e)
      else (case closed_subscriptions e of
              [] \<Rightarrow> Some (False, e)
            | closed_subscription # rest \<Rightarrow>
                if hasPendingNotifications closed_subscription then do {
                  e1 \<leftarrow> perform_calls dh now (publish_pending_notifications closed_subscription)
                          (e\<lparr> closed_subscriptions := rest,
                              subscription_calls := subscription_calls e
                                @ [(id_sub closed_subscription, Publish_pending_notifications)] \<rparr>);
                  Some (True, e1)
                } else Some (False, e\<lparr> closed_subscriptions := rest \<rparr>)))"

subsection \<open>A publish request arrives\<close>

definition process_pending_publish_response ::
  "publishData \<Rightarrow> ServerSidePublishEngine \<Rightarrow> (bool \<times> ServerSidePublishEngine) option" where
  "process_pending_publish_response pd e =
     (case publish_response_queue e of
        [] \<Rightarrow> Some (False, e)
      | response # rest \<Rightarrow> do {
          assert (length (publish_request_queue e) = 0);
          e1 \<leftarrow> send_response_for_request pd response (e\<lparr> publish_response_queue := rest \<rparr>);
          Some (True, e1)
        })"

definition prepare_timeout_info :: "int \<Rightarrow> PublishRequest \<Rightarrow> PublishRequest option" where
  "prepare_timeout_info now r = do {
     assert (requestHeader_timeoutHint r \<ge> 0);
     Some (r\<lparr> received_time := Some now,
              timeout_time := Some (if requestHeader_timeoutHint r > 0
                                    then now + requestHeader_timeoutHint r else 0) \<rparr>)
   }"

text \<open>
  Lines 213 to 222, the start of the last branch of \<^verbatim>\<open>_on_PublishRequest\<close>: the
  request gets its deadline (the object in \<open>pd\<close> is the request itself), the record is
  pushed, and the late and the closed subscriptions are fed.
\<close>

definition enqueue_and_feed ::
  "nat \<Rightarrow> int \<Rightarrow> publishData \<Rightarrow> ServerSidePublishEngine \<Rightarrow> ServerSidePublishEngine option" where
  "enqueue_and_feed dh now pd e = do {
     r \<leftarrow> prepare_timeout_info now (request pd);
     let e1 = e\<lparr> publish_request_queue := publish_request_queue e @ [pd\<lparr> request := r \<rparr>] \<rparr>;
     e2 \<leftarrow> feed_late_subscription dh now e1;
     (fed, e3) \<leftarrow> feed_closed_subscription dh now e2;
     Some e3
   }"

text \<open>
  Lines 182 to 188: the record that \<^verbatim>\<open>_on_PublishRequest\<close> forms of the request, the
  results of its acknowledgements, and the callback (\<^verbatim>\<open>callback || dummy_function\<close>).
\<close>

definition new_publishData ::
  "PublishRequest \<Rightarrow> callback_fn option \<Rightarrow> ServerSidePublishEngine \<Rightarrow> publishData" where
  "new_publishData r cb e =
     (let callback1 = (case cb of None \<Rightarrow> dummy_function | Some c \<Rightarrow> c);
          subscriptionAckResults =
            process_subscriptionAcknowledgements (subscriptionAcknowledgements r) e
      in \<lparr> request = r, results = subscriptionAckResults, callback = callback1 \<rparr>)"

definition on_PublishRequest ::
  "nat \<Rightarrow> int \<Rightarrow> PublishRequest \<Rightarrow> callback_fn option \<Rightarrow> ServerSidePublishEngine
     \<Rightarrow> ServerSidePublishEngine option" where
  "on_PublishRequest dh now r cb e =
     (let pd = new_publishData r cb e
      in do {
        (answered, e1) \<leftarrow> process_pending_publish_response pd e;
        if answered then Some e1
        else if isSessionClosed e1 then send_error_for_request dh pd BadSessionClosed e1
        else if subscriptionCount e1 = 0 then
          (case closed_subscriptions e1 of
             [] \<Rightarrow> send_error_for_request dh pd BadNoSubscription e1
           | closed_subscription # _ \<Rightarrow>
               if hasPendingNotifications closed_subscription then do {
                 let verif = length (publish_request_queue e1);
                 let e2 = e1\<lparr> publish_request_queue := publish_request_queue e1 @ [pd] \<rparr>;
                 (processed, e3) \<leftarrow> feed_closed_subscription dh now e2;
                 assert (verif = length (publish_request_queue e3));
                 assert processed;
                 Some e3
               } else send_error_for_request dh pd BadNoSubscription e1)
        else do {
          e2 \<leftarrow> enqueue_and_feed dh now pd e1;
          handle_too_many_requests dh e2
        }
      })"

subsection \<open>The tick\<close>

definition timeout_filter :: "int \<Rightarrow> publishData \<Rightarrow> bool" where
  "timeout_filter current_time data =
     (case timeout_time (request data) of
        None \<Rightarrow> False
      | Some t \<Rightarrow> if t = 0 then False else t < current_time)"

definition cancelTimeoutRequests ::
  "nat \<Rightarrow> int \<Rightarrow> ServerSidePublishEngine \<Rightarrow> ServerSidePublishEngine option" where
  "cancelTimeoutRequests dh current_time e =
     (if length (publish_request_queue e) = 0 then Some e
      else (let parts = partition (timeout_filter current_time) (publish_request_queue e);
                e1 = e\<lparr> publish_request_queue := snd parts \<rparr>
            in forEach (\<lambda>pd. send_response_for_request pd (status_response dh BadTimeout))
                 (fst parts) e1))"

definition on_tick :: "nat \<Rightarrow> int \<Rightarrow> ServerSidePublishEngine \<Rightarrow> ServerSidePublishEngine option" where
  "on_tick dh current_time e = cancelTimeoutRequests dh current_time e"

subsection \<open>Attaching, detaching and closing subscriptions\<close>

text \<open>
  An engine is an object; \<open>self\<close> is its reference, which the back-reference
  \<^verbatim>\<open>publishEngine\<close> of a subscription holds (\<open>None\<close> is \<^verbatim>\<open>null\<close>). Both functions
  return the subscription as the call leaves it.
\<close>

definition add_subscription ::
  "nat \<Rightarrow> Subscription \<Rightarrow> ServerSidePublishEngine
     \<Rightarrow> (Subscription \<times> ServerSidePublishEngine) option" where
  "add_subscription self subscription e = do {
     let s1 = subscription\<lparr> publishEngine :=
                (case publishEngine subscription of Some p \<Rightarrow> Some p | None \<Rightarrow> Some self) \<rparr>;
     assert (publishEngine s1 = Some self);
     assert (map_of (subscriptions e) (id_sub s1) = None);
     Some (s1, e\<lparr> subscriptions := object_set (id_sub s1) s1 (subscriptions e) \<rparr>)
   }"

definition detach_subscription ::
  "nat \<Rightarrow> Subscription \<Rightarrow> ServerSidePublishEngine
     \<Rightarrow> (Subscription \<times> ServerSidePublishEngine) option" where
  "detach_subscription self subscription e = do {
     assert (publishEngine subscription = Some self);
     assert (map_of (subscriptions e) (id_sub subscription) = Some subscription);
     Some (subscription\<lparr> publishEngine := None \<rparr>,
           e\<lparr> subscriptions := object_delete (id_sub subscription) (subscriptions e) \<rparr>)
   }"

definition shutdown :: "ServerSidePublishEngine \<Rightarrow> ServerSidePublishEngine option" where
  "shutdown e = do {
     assert (subscriptionCount e = 0);
     Some (e\<lparr> publish_request_queue := [],
              publish_response_queue := [],
              closed_subscriptions := [] \<rparr>)
   }"

text \<open>
  \<^verbatim>\<open>while (self._feed_closed_subscription()) { }\<close>: every round that returns true has
  taken a subscription off the closed list, which is why the loop ends.
\<close>

lemma send_response_for_request_closed:
  "send_response_for_request pd r e = Some e' \<Longrightarrow> closed_subscriptions e' = closed_subscriptions e"
  by (auto simp: send_response_for_request_def assert_def Let_def split: if_splits)

lemma send_notification_message_closed:
  "send_notification_message dh now param force e = Some e'
     \<Longrightarrow> closed_subscriptions e' = closed_subscriptions e"
  by (auto simp: send_notification_message_def assert_def Let_def
      dest!: send_response_for_request_closed split: if_splits list.splits)

lemma perform_call_closed:
  "perform_call dh now c e = Some e' \<Longrightarrow> closed_subscriptions e' = closed_subscriptions e"
  by (cases c)
    (auto simp: send_keep_alive_response_def bind_eq_Some_conv
      dest!: send_notification_message_closed split: option.splits if_splits)

lemma perform_calls_closed:
  "perform_calls dh now cs e = Some e' \<Longrightarrow> closed_subscriptions e' = closed_subscriptions e"
  unfolding perform_calls_def
  by (induction cs arbitrary: e) (auto dest: perform_call_closed split: option.splits)

lemma feed_closed_subscription_shorter:
  "feed_closed_subscription dh now e = Some (True, e')
     \<Longrightarrow> length (closed_subscriptions e') < length (closed_subscriptions e)"
  by (auto simp: feed_closed_subscription_def bind_eq_Some_conv dest!: perform_calls_closed
      split: if_splits list.splits)

function feed_closed_subscriptions ::
  "nat \<Rightarrow> int \<Rightarrow> ServerSidePublishEngine \<Rightarrow> ServerSidePublishEngine option" where
  "feed_closed_subscriptions dh now e =
     (case feed_closed_subscription dh now e of
        None \<Rightarrow> None
      | Some (fed, e1) \<Rightarrow> if fed then feed_closed_subscriptions dh now e1 else Some e1)"
  by pat_completeness auto
termination
  by (relation "measure (\<lambda>(dh, now, e). length (closed_subscriptions e))")
    (auto dest: feed_closed_subscription_shorter)

declare feed_closed_subscriptions.simps [simp del]

definition on_close_subscription ::
  "nat \<Rightarrow> int \<Rightarrow> Subscription \<Rightarrow> ServerSidePublishEngine \<Rightarrow> ServerSidePublishEngine option" where
  "on_close_subscription dh now subscription e = do {
     assert (map_of (subscriptions e) (id_sub subscription) \<noteq> None);
     let e1 = (if hasPendingNotifications subscription
               then e\<lparr> closed_subscriptions := closed_subscriptions e @ [subscription] \<rparr>
               else e);
     let e2 = e1\<lparr> subscriptions := object_delete (id_sub subscription) (subscriptions e1) \<rparr>;
     if subscriptionCount e2 = 0 then do {
       e3 \<leftarrow> feed_closed_subscriptions dh now e2;
       cancelPendingPublishRequest dh e3
     } else Some e2
   }"

subsection \<open>Sequences of calls\<close>

text \<open>
  The public operations of an engine. Between two of them the subscriptions live their
  own life (their timers run, their state changes): \<open>Subscriptions_change f\<close> is such a
  step, \<open>f\<close> being what happens to each subscription object the engine holds.
\<close>

datatype operation =
    On_PublishRequest int PublishRequest "callback_fn option"
  | Send_notification int notification_param bool
  | Send_keep_alive int nat nat
  | On_tick int
  | Add_subscription Subscription
  | Detach_subscription Subscription
  | On_close_subscription int Subscription
  | OnSessionClose
  | CancelPendingPublishRequestBeforeChannelChange
  | Shutdown
  | Subscriptions_change "Subscription \<Rightarrow> Subscription"

fun apply_operation :: "nat \<Rightarrow> nat \<Rightarrow> operation \<Rightarrow> ServerSidePublishEngine
    \<Rightarrow> ServerSidePublishEngine option" where
  "apply_operation dh self (On_PublishRequest now r cb) e = on_PublishRequest dh now r cb e"
| "apply_operation dh self (Send_notification now param force) e =
     send_notification_message dh now param force e"
| "apply_operation dh self (Send_keep_alive now k n) e =
     map_option snd (send_keep_alive_response dh now k n e)"
| "apply_operation dh self (On_tick now) e = on_tick dh now e"
| "apply_operation dh self (Add_subscription s) e = map_option snd (add_subscription self s e)"
| "apply_operation dh self (Detach_subscription s) e =
     map_option snd (detach_subscription self s e)"
| "apply_operation dh self (On_close_subscription now s) e = on_close_subscription dh now s e"
| "apply_operation dh self OnSessionClose e = onSessionClose dh e"
| "apply_operation dh self CancelPendingPublishRequestBeforeChannelChange e =
     cancelPendingPublishRequestBeforeChannelChange dh e"
| "apply_operation dh self Shutdown e = shutdown e"
| "apply_operation dh self (Subscriptions_change f) e =
     Some (e\<lparr> subscriptions := map (\<lambda>kv. (fst kv, f (snd kv))) (subscriptions e),
              closed_subscriptions := map f (closed_subscriptions e) \<rparr>)"

definition run :: "nat \<Rightarrow> nat \<Rightarrow> operation list \<Rightarrow> ServerSidePublishEngine
    \<Rightarrow> ServerSidePublishEngine option" where
  "run dh self ops e = forEach (apply_operation dh self) ops e"

subsection \<open>Transfer of a subscription between engines\<close>

text \<open>
  \<^verbatim>\<open>transferSubscription\<close> is a static method over two engines, so it works on a store
  of engine objects by reference. \<open>method_calls\<close> lists the subscription methods it
  invokes, by subscription id, in order.
\<close>

record world =
  engines :: "nat \<Rightarrow> ServerSidePublishEngine"
  method_calls :: "(nat \<times> subscription_method) list"

text \<open>
  Modelled from the spec: \<^verbatim>\<open>Subscription.notifyTransfer\<close>, a method of
  \<^verbatim>\<open>lib/server/Subscription\<close>, which is not among the sources. Section 4.5, step 1: "the
  subscription emits a StatusChangeNotification(GoodSubscriptionTransferred) to the source
  engine's queue (so the source session sees the transfer through a normal publish
  response)", and scenario S6: the source engine emits it "on its next outbound response".
  So the notification (\<open>transfer_notification\<close>, with the sequence number the
  subscription gives it) goes to the engine the subscription is attached to, forced: it
  is delivered to a pending request, or stashed for the next one.
\<close>

definition transfer_notification :: "Subscription \<Rightarrow> notification_param" where
  "transfer_notification s =
     \<lparr> param_subscriptionId = id_sub s,
       param_sequenceNumber = nextSequenceNumber s,
       param_notificationData = [StatusChangeNotification GoodSubscriptionTransferred],
       param_moreNotifications = False \<rparr>"

definition notifyTransfer :: "nat \<Rightarrow> int \<Rightarrow> Subscription \<Rightarrow> world \<Rightarrow> world option" where
  "notifyTransfer dh now subscription w =
     (case publishEngine subscription of
        None \<Rightarrow> None
      | Some src \<Rightarrow> do {
          e1 \<leftarrow> send_notification_message dh now (transfer_notification subscription)
                  True (engines w src);
          Some (w\<lparr> engines := (engines w)(src := e1),
                   method_calls := method_calls w @ [(id_sub subscription, NotifyTransfer)] \<rparr>)
        })"

text \<open>
  \<^verbatim>\<open>transferSubscription(subscription, destPublishEngine, sendInitialValues)\<close>. It
  returns nothing in the source; here it returns the subscription as the call leaves it,
  with the world. \<^verbatim>\<open>resetLifeTimeCounter\<close> and \<^verbatim>\<open>resendInitialValues\<close> touch the
  subscription's own counters and items only: their invocation is recorded.
\<close>

definition transferSubscription ::
  "nat \<Rightarrow> int \<Rightarrow> Subscription \<Rightarrow> nat \<Rightarrow> bool \<Rightarrow> world \<Rightarrow> (Subscription \<times> world) option" where
  "transferSubscription dh now subscription destPublishEngine sendInitialValues w = do {
     let srcPublishEngine = publishEngine subscription;
     w1 \<leftarrow> notifyTransfer dh now subscription w;
     src \<leftarrow> srcPublishEngine;
     (detached, e_src) \<leftarrow> detach_subscription src subscription (engines w1 src);
     let w2 = w1\<lparr> engines := (engines w1)(src := e_src) \<rparr>;
     (attached, e_dest) \<leftarrow>
        add_subscription destPublishEngine detached (engines w2 destPublishEngine);
     let w3 = w2\<lparr> engines := (engines w2)(destPublishEngine := e_dest) \<rparr>;
     let w4 = w3\<lparr> method_calls := method_calls w3 @ [(id_sub attached, ResetLifeTimeCounter)] \<rparr>;
     let w5 = (if sendInitialValues
               then w4\<lparr> method_calls := method_calls w4
                          @ [(id_sub attached, ResendInitialValues)] \<rparr>
               else w4);
     Some (attached, w5)
   }"

section \<open>What a sequence of notifications does to the queues\<close>

text \<open>
  A response is a notification response (built by \<open>send_notification_message\<close>) or a
  status-only response (built with a service result and nothing else).
\<close>

definition notification_reply :: "PublishResponse \<Rightarrow> bool" where
  "notification_reply p \<longleftrightarrow>
     notificationMessage p \<noteq> None \<and> responseHeader_serviceResult p = None"

definition status_reply :: "PublishResponse \<Rightarrow> bool" where
  "status_reply p \<longleftrightarrow>
     responseHeader_serviceResult p \<noteq> None \<and> notificationMessage p = None
     \<and> subscriptionId p = None \<and> availableSequenceNumbers p = None \<and> moreNotifications p = None"

text \<open>
  \<open>sends dh e e'\<close>: between \<open>e\<close> and \<open>e'\<close> the engine has only sent notifications. The
  first \<open>k\<close> pending requests were answered, each with a notification response, in the
  order of the queue; the responses that found no request were stashed, fresh (their
  request handle is \<open>dh\<close>); a response is stashed only once the request queue is empty.
\<close>

definition sends ::
  "nat \<Rightarrow> ServerSidePublishEngine \<Rightarrow> ServerSidePublishEngine \<Rightarrow> bool" where
  "sends dh e e' \<longleftrightarrow>
     (\<exists>k rs st. k \<le> length (publish_request_queue e) \<and> length rs = k
        \<and> list_all notification_reply rs \<and> list_all notification_reply st
        \<and> list_all (\<lambda>r. responseHeader_requestHandle r = dh) st
        \<and> publish_request_queue e' = drop k (publish_request_queue e)
        \<and> callback_calls e' = callback_calls e
             @ map (\<lambda>(pd, r). (callback pd, request pd, r)) (zip (take k (publish_request_queue e)) rs)
        \<and> publish_response_queue e' = publish_response_queue e @ st
        \<and> (st = [] \<or> k = length (publish_request_queue e))
        \<and> subscriptions e' = subscriptions e
        \<and> maxPublishRequestInQueue e' = maxPublishRequestInQueue e
        \<and> isSessionClosed e' = isSessionClosed e)"

lemma send_response_for_request_eq:
  "send_response_for_request pd r e =
     (if responseHeader_requestHandle r = 0 then None
      else Some (e\<lparr> callback_calls := callback_calls e
                  @ [(callback pd, request pd, delivered_response pd r)] \<rparr>))"
  by (simp add: send_response_for_request_def assert_def)

lemma notification_reply_new [simp]:
  "notification_reply (notification_response dh now param av)"
  "notification_reply (delivered_response pd (notification_response dh now param av))"
  by (simp_all add: notification_reply_def notification_response_def delivered_response_def)

lemma notification_reply_delivered [simp]:
  "notification_reply (delivered_response pd r) = notification_reply r"
  by (simp add: notification_reply_def delivered_response_def)

lemma status_reply_new [simp]:
  "status_reply (status_response dh sc)"
  "status_reply (delivered_response pd r) = status_reply r"
  by (simp_all add: status_reply_def status_response_def delivered_response_def)

lemma sends_refl: "sends dh e e"
  unfolding sends_def by (rule exI[of _ 0], rule exI[of _ "[]"], rule exI[of _ "[]"]) simp

lemma sends_trans:
  assumes "sends dh e1 e2" "sends dh e2 e3"
  shows "sends dh e1 e3"
proof -
  from assms(1) obtain k1 rs1 st1 where a:
    "k1 \<le> length (publish_request_queue e1)" "length rs1 = k1"
    "list_all notification_reply rs1" "list_all notification_reply st1"
    "list_all (\<lambda>r. responseHeader_requestHandle r = dh) st1"
    "publish_request_queue e2 = drop k1 (publish_request_queue e1)"
    "callback_calls e2 = callback_calls e1
       @ map (\<lambda>(pd, r). (callback pd, request pd, r)) (zip (take k1 (publish_request_queue e1)) rs1)"
    "publish_response_queue e2 = publish_response_queue e1 @ st1"
    "st1 = [] \<or> k1 = length (publish_request_queue e1)"
    "subscriptions e2 = subscriptions e1"
    "maxPublishRequestInQueue e2 = maxPublishRequestInQueue e1"
    "isSessionClosed e2 = isSessionClosed e1"
    unfolding sends_def by blast
  from assms(2) obtain k2 rs2 st2 where b:
    "k2 \<le> length (publish_request_queue e2)" "length rs2 = k2"
    "list_all notification_reply rs2" "list_all notification_reply st2"
    "list_all (\<lambda>r. responseHeader_requestHandle r = dh) st2"
    "publish_request_queue e3 = drop k2 (publish_request_queue e2)"
    "callback_calls e3 = callback_calls e2
       @ map (\<lambda>(pd, r). (callback pd, request pd, r)) (zip (take k2 (publish_request_queue e2)) rs2)"
    "publish_response_queue e3 = publish_response_queue e2 @ st2"
    "st2 = [] \<or> k2 = length (publish_request_queue e2)"
    "subscriptions e3 = subscriptions e2"
    "maxPublishRequestInQueue e3 = maxPublishRequestInQueue e2"
    "isSessionClosed e3 = isSessionClosed e2"
    unfolding sends_def by blast
  let ?q = "publish_request_queue e1"
  have tk: "take (k1 + k2) ?q = take k1 ?q @ take k2 (drop k1 ?q)"
    by (simp add: take_add)
  have len: "length (take k1 ?q) = length rs1"
    using a(1,2) by simp
  have zp: "zip (take (k1 + k2) ?q) (rs1 @ rs2)
      = zip (take k1 ?q) rs1 @ zip (take k2 (drop k1 ?q)) rs2"
    unfolding tk using len by (simp add: zip_append)
  show ?thesis
    unfolding sends_def
    apply (rule exI[of _ "k1 + k2"], rule exI[of _ "rs1 @ rs2"], rule exI[of _ "st1 @ st2"])
    using a b zp by (auto simp: add.commute)
qed

lemma sendsI:
  "k \<le> length (publish_request_queue e) \<Longrightarrow> length rs = k
   \<Longrightarrow> list_all notification_reply rs \<Longrightarrow> list_all notification_reply st
   \<Longrightarrow> list_all (\<lambda>r. responseHeader_requestHandle r = dh) st
   \<Longrightarrow> publish_request_queue e' = drop k (publish_request_queue e)
   \<Longrightarrow> callback_calls e' = callback_calls e
         @ map (\<lambda>(pd, r). (callback pd, request pd, r)) (zip (take k (publish_request_queue e)) rs)
   \<Longrightarrow> publish_response_queue e' = publish_response_queue e @ st
   \<Longrightarrow> st = [] \<or> k = length (publish_request_queue e)
   \<Longrightarrow> subscriptions e' = subscriptions e
   \<Longrightarrow> maxPublishRequestInQueue e' = maxPublishRequestInQueue e
   \<Longrightarrow> isSessionClosed e' = isSessionClosed e
   \<Longrightarrow> sends dh e e'"
  unfolding sends_def by blast

lemma notification_response_handle:
  "responseHeader_requestHandle (notification_response dh now param av) = dh"
  by (simp add: notification_response_def)

lemma send_notification_message_sends:
  assumes "send_notification_message dh now param force e = Some e'"
  shows "sends dh e e'"
proof (cases "publish_request_queue e")
  case Nil
  show ?thesis
    by (rule sendsI[where k = 0 and rs = "[]" and st = "[notification_response dh now param
        (case getSubscriptionById (param_subscriptionId param) e of
           Some s \<Rightarrow> getAvailableSequenceNumbers s | None \<Rightarrow> [])]"])
      (use assms Nil in \<open>auto simp: send_notification_message_def assert_def Let_def
        pendingPublishRequestCount_def notification_response_handle split: if_splits\<close>)
next
  case (Cons pd rest)
  show ?thesis
    by (rule sendsI[where k = 1 and st = "[]" and rs = "[delivered_response pd
        (notification_response dh now param
          (case getSubscriptionById (param_subscriptionId param) e of
             Some s \<Rightarrow> getAvailableSequenceNumbers s | None \<Rightarrow> []))]"])
      (use assms Cons in \<open>auto simp: send_notification_message_def assert_def Let_def
        pendingPublishRequestCount_def send_response_for_request_eq split: if_splits\<close>)
qed

lemma send_keep_alive_response_sends:
  assumes "send_keep_alive_response dh now k n e = Some (b, e')"
  shows "sends dh e e'"
proof (cases "getSubscriptionById k e = None \<or> pendingPublishRequestCount e = 0")
  case True
  with assms have "e' = e"
    by (auto simp: send_keep_alive_response_def split: option.splits)
  then show ?thesis by (simp add: sends_refl)
next
  case False
  with assms obtain p where "send_notification_message dh now p False e = Some e'"
    by (auto simp: send_keep_alive_response_def bind_eq_Some_conv split: option.splits)
  then show ?thesis by (rule send_notification_message_sends)
qed

lemma perform_call_sends: "perform_call dh now c e = Some e' \<Longrightarrow> sends dh e e'"
proof (cases c)
  case (Send_notification_message p f)
  assume "perform_call dh now c e = Some e'"
  with Send_notification_message show ?thesis
    by (simp add: send_notification_message_sends)
next
  case (Send_keep_alive_response k n)
  assume "perform_call dh now c e = Some e'"
  with Send_keep_alive_response obtain b where
    "send_keep_alive_response dh now k n e = Some (b, e')"
    by auto
  then show ?thesis by (rule send_keep_alive_response_sends)
qed


lemma perform_calls_sends: "perform_calls dh now cs e = Some e' \<Longrightarrow> sends dh e e'"
  unfolding perform_calls_def
proof (induction cs arbitrary: e)
  case Nil
  then show ?case by (simp add: sends_refl)
next
  case (Cons c cs)
  from Cons.prems obtain e1 where s1: "perform_call dh now c e = Some e1"
    and s2: "forEach (perform_call dh now) cs e1 = Some e'"
    by (auto split: option.splits)
  from perform_call_sends[OF s1] Cons.IH[OF s2] show ?case
    by (rule sends_trans)
qed

lemma sends_after_field:
  "sends dh e (e\<lparr> closed_subscriptions := y \<rparr>)"
  "sends dh e (e\<lparr> subscription_calls := x \<rparr>)"
  "sends dh e (e\<lparr> closed_subscriptions := y, subscription_calls := x \<rparr>)"
  by (rule sendsI[where k = 0 and rs = "[]" and st = "[]"]; simp)+

lemma feed_late_subscription_cases:
  "feed_late_subscription dh now e = Some e' \<Longrightarrow>
     e' = e \<or> (\<exists>s::Subscription. perform_calls dh now (process_subscription s)
        (e\<lparr> subscription_calls := subscription_calls e @ [(id_sub s, Process_subscription)] \<rparr>)
          = Some e')"
  unfolding feed_late_subscription_def
  by (cases "pendingPublishRequestCount e = 0";
      cases "findSubscriptionWaitingForFirstPublish e";
      cases "findLateSubscriptionSortedByPriority e") auto

lemma feed_late_subscription_sends:
  assumes "feed_late_subscription dh now e = Some e'"
  shows "sends dh e e'"
  using feed_late_subscription_cases[OF assms]
proof (elim disjE exE)
  assume "e' = e"
  then show ?thesis by (simp add: sends_refl)
next
  fix s :: Subscription
  assume "perform_calls dh now (process_subscription s)
        (e\<lparr> subscription_calls := subscription_calls e @ [(id_sub s, Process_subscription)] \<rparr>)
          = Some e'"
  from sends_after_field(2) perform_calls_sends[OF this] show ?thesis
    by (rule sends_trans)
qed

lemma feed_closed_subscription_cases:
  "feed_closed_subscription dh now e = Some (b, e') \<Longrightarrow>
     (\<not> b \<and> e' = e) \<or> (\<not> b \<and> e' = e\<lparr> closed_subscriptions := tl (closed_subscriptions e) \<rparr>)
     \<or> (b \<and> closed_subscriptions e \<noteq> [] \<and> publish_request_queue e \<noteq> []
          \<and> hasPendingNotifications (hd (closed_subscriptions e))
          \<and> perform_calls dh now (publish_pending_notifications (hd (closed_subscriptions e)))
              (e\<lparr> closed_subscriptions := tl (closed_subscriptions e),
                  subscription_calls := subscription_calls e
                    @ [(id_sub (hd (closed_subscriptions e)), Publish_pending_notifications)] \<rparr>)
             = Some e')"
  unfolding feed_closed_subscription_def pendingPublishRequestCount_def
  by (cases "publish_request_queue e"; cases "closed_subscriptions e")
    (auto simp: bind_eq_Some_conv split: if_splits)

lemma feed_closed_subscription_sends:
  assumes "feed_closed_subscription dh now e = Some (b, e')"
  shows "sends dh e e'"
  using feed_closed_subscription_cases[OF assms]
proof (elim disjE conjE)
  assume "e' = e"
  then show ?thesis by (simp add: sends_refl)
next
  assume "e' = e\<lparr> closed_subscriptions := tl (closed_subscriptions e) \<rparr>"
  then show ?thesis by (simp add: sends_after_field)
next
  assume "perform_calls dh now (publish_pending_notifications (hd (closed_subscriptions e)))
              (e\<lparr> closed_subscriptions := tl (closed_subscriptions e),
                  subscription_calls := subscription_calls e
                    @ [(id_sub (hd (closed_subscriptions e)), Publish_pending_notifications)] \<rparr>)
             = Some e'"
  from sends_after_field(3) perform_calls_sends[OF this] show ?thesis
    by (rule sends_trans)
qed


lemma feed_closed_subscriptions_sends:
  "feed_closed_subscriptions dh now e = Some e' \<Longrightarrow> sends dh e e'"
proof (induction dh now e rule: feed_closed_subscriptions.induct)
  case (1 dh now e)
  from "1.prems" obtain fed e1 where s1: "feed_closed_subscription dh now e = Some (fed, e1)"
    and s2: "if fed then feed_closed_subscriptions dh now e1 = Some e' else e1 = e'"
    by (subst (asm) feed_closed_subscriptions.simps) (auto split: option.splits if_splits)
  show ?case
  proof (cases fed)
    case True
    with s2 have "feed_closed_subscriptions dh now e1 = Some e'" by simp
    from feed_closed_subscription_sends[OF s1] "1.IH"[OF s1 refl True this] show ?thesis
      by (rule sends_trans)
  next
    case False
    with s2 feed_closed_subscription_sends[OF s1] show ?thesis by simp
  qed
qed

section \<open>Status-only answers\<close>

lemma forEach_status_responses:
  "dh \<noteq> 0 \<Longrightarrow>
   forEach (\<lambda>pd. send_response_for_request pd (status_response dh sc)) pds e =
     Some (e\<lparr> callback_calls := callback_calls e
              @ map (\<lambda>pd. (callback pd, request pd,
                            delivered_response pd (status_response dh sc))) pds \<rparr>)"
  by (induction pds arbitrary: e)
    (simp_all add: send_response_for_request_eq status_response_def)

lemma send_error_for_request_eq:
  "dh \<noteq> 0 \<Longrightarrow>
   send_error_for_request dh pd sc e =
     Some (e\<lparr> callback_calls := callback_calls e
              @ [(callback pd, request pd, delivered_response pd (status_response dh sc))] \<rparr>)"
  by (simp add: send_error_for_request_def send_response_for_request_eq status_response_def)

lemma cancelPendingPublishRequest_with_eq:
  "dh \<noteq> 0 \<Longrightarrow>
   cancelPendingPublishRequest_with dh sc e =
     Some (e\<lparr> callback_calls := callback_calls e
              @ map (\<lambda>pd. (callback pd, request pd,
                            delivered_response pd (status_response dh sc)))
                  (publish_request_queue e),
             publish_request_queue := [] \<rparr>)"
proof -
  have "(\<lambda>pd. send_error_for_request dh pd sc)
      = (\<lambda>pd. send_response_for_request pd (status_response dh sc))"
    by (simp add: fun_eq_iff send_error_for_request_def)
  then show "dh \<noteq> 0 \<Longrightarrow> ?thesis"
    by (simp add: cancelPendingPublishRequest_with_def forEach_status_responses)
qed

section \<open>What each operation does\<close>

lemma forEach_status_responses_Some:
  "forEach (\<lambda>pd. send_response_for_request pd resp) pds e = Some e' \<Longrightarrow>
   e' = e\<lparr> callback_calls := callback_calls e
              @ map (\<lambda>pd. (callback pd, request pd, delivered_response pd resp)) pds \<rparr>"
proof (induction pds arbitrary: e)
  case Nil
  then show ?case by simp
next
  case (Cons a pds)
  from Cons.prems obtain e1 where s1: "send_response_for_request a resp e = Some e1"
    and s2: "forEach (\<lambda>pd. send_response_for_request pd resp) pds e1 = Some e'"
    by (auto split: option.splits)
  from s1 have "e1 = e\<lparr> callback_calls := callback_calls e
            @ [(callback a, request a, delivered_response a resp)] \<rparr>"
    by (simp add: send_response_for_request_eq split: if_splits)
  with Cons.IH[OF s2] show ?case by simp
qed

lemma send_error_for_request_Some:
  "send_error_for_request dh pd sc e = Some e' \<Longrightarrow>
   e' = e\<lparr> callback_calls := callback_calls e
          @ [(callback pd, request pd, delivered_response pd (status_response dh sc))] \<rparr>"
  by (auto simp: send_error_for_request_def send_response_for_request_eq split: if_splits)

lemma cancelPendingPublishRequest_with_Some:
  assumes "cancelPendingPublishRequest_with dh sc e = Some e'"
  shows "e' = e\<lparr> callback_calls := callback_calls e
              @ map (\<lambda>pd. (callback pd, request pd,
                            delivered_response pd (status_response dh sc)))
                  (publish_request_queue e),
             publish_request_queue := [] \<rparr>"
proof -
  have eq: "(\<lambda>pd. send_error_for_request dh pd sc)
      = (\<lambda>pd. send_response_for_request pd (status_response dh sc))"
    by (simp add: fun_eq_iff send_error_for_request_def)
  from assms obtain e1 where
    "forEach (\<lambda>pd. send_response_for_request pd (status_response dh sc))
       (publish_request_queue e) e = Some e1"
    and "e' = e1\<lparr> publish_request_queue := [] \<rparr>"
    by (auto simp: cancelPendingPublishRequest_with_def eq bind_eq_Some_conv)
  with forEach_status_responses_Some[of "status_response dh sc" "publish_request_queue e" e e1]
  show ?thesis by simp
qed

lemma on_tick_Some:
  assumes "on_tick dh now e = Some e'"
  shows "e' = e\<lparr> publish_request_queue :=
                     filter (\<lambda>pd. \<not> timeout_filter now pd) (publish_request_queue e),
                   callback_calls := callback_calls e
                     @ map (\<lambda>pd. (callback pd, request pd,
                                   delivered_response pd (status_response dh BadTimeout)))
                         (filter (timeout_filter now) (publish_request_queue e)) \<rparr>"
proof (cases "publish_request_queue e")
  case Nil
  with assms show ?thesis
    by (simp add: on_tick_def cancelTimeoutRequests_def)
next
  case (Cons pd rest)
  with assms have "forEach (\<lambda>pd. send_response_for_request pd (status_response dh BadTimeout))
      (filter (timeout_filter now) (publish_request_queue e))
      (e\<lparr> publish_request_queue :=
            filter (\<lambda>pd. \<not> timeout_filter now pd) (publish_request_queue e) \<rparr>) = Some e'"
    by (simp add: on_tick_def cancelTimeoutRequests_def Let_def comp_def)
  from forEach_status_responses_Some[OF this] show ?thesis by simp
qed

lemma handle_too_many_requests_Some:
  assumes "handle_too_many_requests dh e = Some e'"
  shows "(length (publish_request_queue e) \<le> maxPublishRequestInQueue e \<and> e' = e)
       \<or> (\<exists>pd rest. publish_request_queue e = pd # rest
             \<and> length rest = maxPublishRequestInQueue e
             \<and> e' = e\<lparr> publish_request_queue := rest,
                      callback_calls := callback_calls e
                        @ [(callback pd, request pd,
                            delivered_response pd
                              (status_response dh BadTooManyPublishRequests))] \<rparr>)"
  using assms
  by (cases "publish_request_queue e")
    (auto simp: handle_too_many_requests_def pendingPublishRequestCount_def assert_def
      bind_eq_Some_conv dest!: send_error_for_request_Some split: if_splits)

lemma process_pending_publish_response_Some:
  assumes "process_pending_publish_response pd e = Some (b, e')"
  shows "(\<not> b \<and> publish_response_queue e = [] \<and> e' = e)
       \<or> (b \<and> publish_request_queue e = []
            \<and> (\<exists>resp rest. publish_response_queue e = resp # rest
                  \<and> e' = e\<lparr> publish_response_queue := rest,
                           callback_calls := callback_calls e
                             @ [(callback pd, request pd, delivered_response pd resp)] \<rparr>))"
  using assms
  by (cases "publish_response_queue e")
    (auto simp: process_pending_publish_response_def assert_def bind_eq_Some_conv
      send_response_for_request_eq split: if_splits)


lemma enqueue_and_feed_Some:
  assumes "enqueue_and_feed dh now pd e = Some e'"
  shows "\<exists>r. prepare_timeout_info now (request pd) = Some r
     \<and> sends dh (e\<lparr> publish_request_queue := publish_request_queue e @ [pd\<lparr> request := r \<rparr>] \<rparr>) e'"
proof -
  from assms obtain r e2 fed where r: "prepare_timeout_info now (request pd) = Some r"
    and l: "feed_late_subscription dh now
        (e\<lparr> publish_request_queue := publish_request_queue e @ [pd\<lparr> request := r \<rparr>] \<rparr>) = Some e2"
    and c: "feed_closed_subscription dh now e2 = Some (fed, e')"
    by (auto simp: enqueue_and_feed_def bind_eq_Some_conv Let_def)
  from feed_late_subscription_sends[OF l] feed_closed_subscription_sends[OF c]
  have "sends dh (e\<lparr> publish_request_queue := publish_request_queue e @ [pd\<lparr> request := r \<rparr>] \<rparr>) e'"
    by (rule sends_trans)
  with r show ?thesis by blast
qed

lemma on_PublishRequest_cases:
  assumes "on_PublishRequest dh now r cb e = Some e'"
    and pd_def: "pd = new_publishData r cb e"
  shows "(publish_request_queue e = []
          \<and> (\<exists>resp rest. publish_response_queue e = resp # rest
                \<and> e' = e\<lparr> publish_response_queue := rest,
                         callback_calls := callback_calls e
                           @ [(callback pd, request pd, delivered_response pd resp)] \<rparr>))
       \<or> (publish_response_queue e = []
          \<and> (\<exists>sc. e' = e\<lparr> callback_calls := callback_calls e
                    @ [(callback pd, request pd,
                        delivered_response pd (status_response dh sc))] \<rparr>))
       \<or> (publish_response_queue e = [] \<and> \<not> isSessionClosed e
          \<and> length (publish_request_queue e') = length (publish_request_queue e)
          \<and> feed_closed_subscription dh now
                (e\<lparr> publish_request_queue := publish_request_queue e @ [pd] \<rparr>) = Some (True, e'))
       \<or> (publish_response_queue e = [] \<and> \<not> isSessionClosed e
          \<and> (\<exists>e2. enqueue_and_feed dh now pd e = Some e2
                \<and> handle_too_many_requests dh e2 = Some e'))"
proof -
  from assms(1) obtain answered e1 where p: "process_pending_publish_response pd e = Some (answered, e1)"
    and rest: "(if answered then Some e1
        else if isSessionClosed e1 then send_error_for_request dh pd BadSessionClosed e1
        else if subscriptionCount e1 = 0 then
          (case closed_subscriptions e1 of
             [] \<Rightarrow> send_error_for_request dh pd BadNoSubscription e1
           | closed_subscription # _ \<Rightarrow>
               if hasPendingNotifications closed_subscription then do {
                 let verif = length (publish_request_queue e1);
                 let e2 = e1\<lparr> publish_request_queue := publish_request_queue e1 @ [pd] \<rparr>;
                 (processed, e3) \<leftarrow> feed_closed_subscription dh now e2;
                 assert (verif = length (publish_request_queue e3));
                 assert processed;
                 Some e3
               } else send_error_for_request dh pd BadNoSubscription e1)
        else do {
          e2 \<leftarrow> enqueue_and_feed dh now pd e1;
          handle_too_many_requests dh e2
        }) = Some e'"
    unfolding on_PublishRequest_def pd_def Let_def
    by (auto simp: bind_eq_Some_conv)
  show ?thesis
  proof (cases answered)
    case True
    with process_pending_publish_response_Some[OF p] rest show ?thesis by auto
  next
    case False
    with process_pending_publish_response_Some[OF p] have e1: "e1 = e"
      and rq: "publish_response_queue e = []" by auto
    show ?thesis
    proof (cases "isSessionClosed e")
      case True
      with rest False e1 have "send_error_for_request dh pd BadSessionClosed e = Some e'" by simp
      from send_error_for_request_Some[OF this] rq show ?thesis by blast
    next
      case notclosed: False
      show ?thesis
      proof (cases "subscriptionCount e = 0")
        case nonzero: False
        with rest False e1 notclosed rq show ?thesis
          by (auto simp: bind_eq_Some_conv)
      next
        case zero: True
        show ?thesis
        proof (cases "closed_subscriptions e \<noteq> []
            \<and> hasPendingNotifications (hd (closed_subscriptions e))")
          case False
          with rest \<open>\<not> answered\<close> e1 notclosed zero
          have "send_error_for_request dh pd BadNoSubscription e = Some e'"
            by (cases "closed_subscriptions e") (auto split: if_splits)
          from send_error_for_request_Some[OF this] rq show ?thesis by blast
        next
          case True
          with rest \<open>\<not> answered\<close> e1 notclosed zero
          have "feed_closed_subscription dh now
                (e\<lparr> publish_request_queue := publish_request_queue e @ [pd] \<rparr>) = Some (True, e')
              \<and> length (publish_request_queue e') = length (publish_request_queue e)"
            by (cases "closed_subscriptions e")
              (auto simp: bind_eq_Some_conv Let_def assert_def split: if_splits)
          with rq notclosed show ?thesis by blast
        qed
      qed
    qed
  qed
qed


lemma on_close_subscription_Some:
  assumes "on_close_subscription dh now s e = Some e'"
  shows "\<exists>c m. (e' = e\<lparr> closed_subscriptions := c, subscriptions := m \<rparr>)
       \<or> (\<exists>e3. sends dh (e\<lparr> closed_subscriptions := c, subscriptions := m \<rparr>) e3
             \<and> e' = e3\<lparr> callback_calls := callback_calls e3
                 @ map (\<lambda>pd. (callback pd, request pd,
                               delivered_response pd (status_response dh BadNoSubscription)))
                     (publish_request_queue e3),
                publish_request_queue := [] \<rparr>)"
proof -
  define c where "c = (if hasPendingNotifications s then closed_subscriptions e @ [s]
                       else closed_subscriptions e)"
  define m where "m = object_delete (id_sub s) (subscriptions e)"
  define e2 where "e2 = e\<lparr> closed_subscriptions := c, subscriptions := m \<rparr>"
  from assms have "(if subscriptionCount e2 = 0 then do {
       e3 \<leftarrow> feed_closed_subscriptions dh now e2;
       cancelPendingPublishRequest dh e3
     } else Some e2) = Some e'"
    by (auto simp: on_close_subscription_def e2_def c_def m_def Let_def assert_def
        bind_eq_Some_conv split: if_splits)
  then consider "e' = e2"
    | e3 where "feed_closed_subscriptions dh now e2 = Some e3"
        "cancelPendingPublishRequest_with dh BadNoSubscription e3 = Some e'"
    by (auto simp: bind_eq_Some_conv cancelPendingPublishRequest_def assert_def
        split: if_splits)
  then show ?thesis
  proof cases
    case 1
    then show ?thesis unfolding e2_def by blast
  next
    case 2
    from feed_closed_subscriptions_sends[OF 2(1)] cancelPendingPublishRequest_with_Some[OF 2(2)]
    show ?thesis unfolding e2_def by blast
  qed
qed

section \<open>Invariants of the queues\<close>

text \<open>
  \<open>queues_exclusive\<close>: a stashed response and a pending request never wait together.
  \<open>replies_typed\<close>: a stashed response is a notification response, and a response given
  to a callback is a notification response or a status-only response.
  \<open>queue_bounded\<close>: the request queue is no longer than the limit, which is positive.
  \<open>ledger\<close>: the callbacks of the pending requests together with the callbacks called so
  far, as a multiset.
\<close>

definition queues_exclusive :: "ServerSidePublishEngine \<Rightarrow> bool" where
  "queues_exclusive e \<longleftrightarrow> publish_response_queue e = [] \<or> publish_request_queue e = []"

definition replies_typed :: "ServerSidePublishEngine \<Rightarrow> bool" where
  "replies_typed e \<longleftrightarrow>
     list_all notification_reply (publish_response_queue e)
     \<and> list_all (\<lambda>c. notification_reply (snd (snd c)) \<or> status_reply (snd (snd c)))
         (callback_calls e)"

definition queue_bounded :: "ServerSidePublishEngine \<Rightarrow> bool" where
  "queue_bounded e \<longleftrightarrow>
     length (publish_request_queue e) \<le> maxPublishRequestInQueue e
     \<and> 0 < maxPublishRequestInQueue e"

definition ledger :: "ServerSidePublishEngine \<Rightarrow> callback_fn multiset" where
  "ledger e = mset (map callback (publish_request_queue e)) + mset (map fst (callback_calls e))"

lemma sends_exclusive: "sends dh e e' \<Longrightarrow> queues_exclusive e \<Longrightarrow> queues_exclusive e'"
  unfolding sends_def queues_exclusive_def by auto

lemma sends_typed: "sends dh e e' \<Longrightarrow> replies_typed e \<Longrightarrow> replies_typed e'"
proof -
  assume s: "sends dh e e'" and t: "replies_typed e"
  from s obtain k rs st where rs: "list_all notification_reply rs"
    and st: "list_all notification_reply st"
    and c: "callback_calls e' = callback_calls e
         @ map (\<lambda>(pd, r). (callback pd, request pd, r)) (zip (take k (publish_request_queue e)) rs)"
    and p: "publish_response_queue e' = publish_response_queue e @ st"
    unfolding sends_def by blast
  from rs have "list_all (\<lambda>c. notification_reply (snd (snd c)) \<or> status_reply (snd (snd c)))
      (map (\<lambda>(pd, r). (callback pd, request pd, r)) (zip (take k (publish_request_queue e)) rs))"
    by (auto simp: list_all_iff dest: set_zip_rightD)
  with t st c p show ?thesis
    by (simp add: replies_typed_def)
qed

lemma sends_length:
  "sends dh e e' \<Longrightarrow> length (publish_request_queue e') \<le> length (publish_request_queue e)
     \<and> maxPublishRequestInQueue e' = maxPublishRequestInQueue e
     \<and> isSessionClosed e' = isSessionClosed e"
  unfolding sends_def by auto

lemma sends_ledger:
  assumes "sends dh e e'"
  shows "ledger e' = ledger e"
proof -
  from assms obtain k rs where k: "k \<le> length (publish_request_queue e)" "length rs = k"
    and q: "publish_request_queue e' = drop k (publish_request_queue e)"
    and c: "callback_calls e' = callback_calls e
         @ map (\<lambda>(pd, r). (callback pd, request pd, r)) (zip (take k (publish_request_queue e)) rs)"
    unfolding sends_def by blast
  have "map fst (map (\<lambda>(pd, r). (callback pd, request pd, r))
          (zip (take k (publish_request_queue e)) rs))
      = map callback (map fst (zip (take k (publish_request_queue e)) rs))"
    by (simp add: case_prod_beta comp_def)
  also have "map fst (zip (take k (publish_request_queue e)) rs) = take k (publish_request_queue e)"
    using k by simp
  finally have f: "map fst (map (\<lambda>(pd, r). (callback pd, request pd, r))
          (zip (take k (publish_request_queue e)) rs))
      = map callback (take k (publish_request_queue e))" .
  have "mset (map callback (publish_request_queue e))
      = mset (map callback (take k (publish_request_queue e)))
        + mset (map callback (drop k (publish_request_queue e)))"
    by (metis append_take_drop_id map_append mset_append)
  with q c f show ?thesis
    by (simp add: ledger_def)
qed

lemma on_PublishRequest_exclusive:
  assumes "on_PublishRequest dh now r cb e = Some e'" and "queues_exclusive e"
  shows "queues_exclusive e'"
  using on_PublishRequest_cases[OF assms(1) refl]
proof (elim disjE conjE exE)
  fix resp rest
  assume "publish_request_queue e = []"
    "e' = e\<lparr> publish_response_queue := rest,
         callback_calls := callback_calls e
           @ [(callback (new_publishData r cb e), request (new_publishData r cb e),
               delivered_response (new_publishData r cb e) resp)] \<rparr>"
  then show ?thesis by (simp add: queues_exclusive_def)
next
  fix sc
  assume "e' = e\<lparr> callback_calls := callback_calls e
           @ [(callback (new_publishData r cb e), request (new_publishData r cb e),
               delivered_response (new_publishData r cb e) (status_response dh sc))] \<rparr>"
  with assms(2) show ?thesis by (simp add: queues_exclusive_def)
next
  assume rq: "publish_response_queue e = []"
    and f: "feed_closed_subscription dh now
        (e\<lparr> publish_request_queue := publish_request_queue e @ [new_publishData r cb e] \<rparr>)
          = Some (True, e')"
  from rq have "queues_exclusive
      (e\<lparr> publish_request_queue := publish_request_queue e @ [new_publishData r cb e] \<rparr>)"
    by (simp add: queues_exclusive_def)
  with feed_closed_subscription_sends[OF f] show ?thesis by (rule sends_exclusive)
next
  fix e2
  assume rq: "publish_response_queue e = []"
    and f: "enqueue_and_feed dh now (new_publishData r cb e) e = Some e2"
    and h: "handle_too_many_requests dh e2 = Some e'"
  from enqueue_and_feed_Some[OF f] obtain r' where
    s: "sends dh (e\<lparr> publish_request_queue := publish_request_queue e
          @ [(new_publishData r cb e)\<lparr> request := r' \<rparr>] \<rparr>) e2"
    by blast
  from rq have "queues_exclusive (e\<lparr> publish_request_queue := publish_request_queue e
          @ [(new_publishData r cb e)\<lparr> request := r' \<rparr>] \<rparr>)"
    by (simp add: queues_exclusive_def)
  with s have "queues_exclusive e2" by (rule sends_exclusive)
  with handle_too_many_requests_Some[OF h] show ?thesis
    by (auto simp: queues_exclusive_def)
qed

lemma on_close_subscription_exclusive:
  assumes "on_close_subscription dh now s e = Some e'" and "queues_exclusive e"
  shows "queues_exclusive e'"
proof -
  from on_close_subscription_Some[OF assms(1)] obtain c m where
    d: "(e' = e\<lparr> closed_subscriptions := c, subscriptions := m \<rparr>)
       \<or> (\<exists>e3. sends dh (e\<lparr> closed_subscriptions := c, subscriptions := m \<rparr>) e3
             \<and> e' = e3\<lparr> callback_calls := callback_calls e3
                 @ map (\<lambda>pd. (callback pd, request pd,
                               delivered_response pd (status_response dh BadNoSubscription)))
                     (publish_request_queue e3),
                publish_request_queue := [] \<rparr>)"
    by blast
  then show ?thesis
  proof
    assume "e' = e\<lparr> closed_subscriptions := c, subscriptions := m \<rparr>"
    with assms(2) show ?thesis by (simp add: queues_exclusive_def)
  next
    assume "\<exists>e3. sends dh (e\<lparr> closed_subscriptions := c, subscriptions := m \<rparr>) e3
             \<and> e' = e3\<lparr> callback_calls := callback_calls e3
                 @ map (\<lambda>pd. (callback pd, request pd,
                               delivered_response pd (status_response dh BadNoSubscription)))
                     (publish_request_queue e3),
                publish_request_queue := [] \<rparr>"
    then show ?thesis by (auto simp: queues_exclusive_def)
  qed
qed

lemma apply_operation_exclusive:
  assumes "apply_operation dh self op e = Some e'" and "queues_exclusive e"
  shows "queues_exclusive e'"
proof (cases op)
  case (On_PublishRequest now r cb)
  with assms show ?thesis by (auto intro: on_PublishRequest_exclusive)
next
  case (Send_notification now param force)
  with assms show ?thesis
    by (auto dest!: send_notification_message_sends intro: sends_exclusive)
next
  case (Send_keep_alive now k n)
  with assms show ?thesis
    by (auto dest!: send_keep_alive_response_sends intro: sends_exclusive)
next
  case (On_tick now)
  with assms show ?thesis
    by (auto dest!: on_tick_Some simp: queues_exclusive_def)
next
  case (Add_subscription s)
  with assms show ?thesis
    by (auto simp: add_subscription_def assert_def bind_eq_Some_conv Let_def
        queues_exclusive_def split: if_splits)
next
  case (Detach_subscription s)
  with assms show ?thesis
    by (auto simp: detach_subscription_def assert_def bind_eq_Some_conv queues_exclusive_def
        split: if_splits)
next
  case (On_close_subscription now s)
  with assms show ?thesis by (auto intro: on_close_subscription_exclusive)
next
  case OnSessionClose
  with assms show ?thesis
    by (auto simp: onSessionClose_def queues_exclusive_def
        dest!: cancelPendingPublishRequest_with_Some)
next
  case CancelPendingPublishRequestBeforeChannelChange
  with assms show ?thesis
    by (auto simp: cancelPendingPublishRequestBeforeChannelChange_def queues_exclusive_def
        dest!: cancelPendingPublishRequest_with_Some)
next
  case Shutdown
  with assms show ?thesis
    by (auto simp: shutdown_def assert_def queues_exclusive_def bind_eq_Some_conv
        split: if_splits)
next
  case (Subscriptions_change f)
  with assms show ?thesis by (auto simp: queues_exclusive_def)
qed

lemma run_exclusive:
  "run dh self ops e = Some e' \<Longrightarrow> queues_exclusive e \<Longrightarrow> queues_exclusive e'"
  unfolding run_def
proof (induction ops arbitrary: e)
  case Nil
  then show ?case by simp
next
  case (Cons op ops)
  from Cons.prems(1) obtain e1 where s1: "apply_operation dh self op e = Some e1"
    and s2: "forEach (apply_operation dh self) ops e1 = Some e'"
    by (auto split: option.splits)
  from apply_operation_exclusive[OF s1 Cons.prems(2)] Cons.IH[OF s2] show ?case by simp
qed

lemma sends_bounded: "sends dh e e' \<Longrightarrow> queue_bounded e \<Longrightarrow> queue_bounded e'"
  using sends_length[of dh e e'] by (auto simp: queue_bounded_def)

lemma on_PublishRequest_bounded:
  assumes "on_PublishRequest dh now r cb e = Some e'" and "queue_bounded e"
  shows "queue_bounded e'"
  using on_PublishRequest_cases[OF assms(1) refl]
proof (elim disjE conjE exE)
  fix resp rest
  assume "e' = e\<lparr> publish_response_queue := rest,
         callback_calls := callback_calls e
           @ [(callback (new_publishData r cb e), request (new_publishData r cb e),
               delivered_response (new_publishData r cb e) resp)] \<rparr>"
  with assms(2) show ?thesis by (simp add: queue_bounded_def)
next
  fix sc
  assume "e' = e\<lparr> callback_calls := callback_calls e
           @ [(callback (new_publishData r cb e), request (new_publishData r cb e),
               delivered_response (new_publishData r cb e) (status_response dh sc))] \<rparr>"
  with assms(2) show ?thesis by (simp add: queue_bounded_def)
next
  assume l: "length (publish_request_queue e') = length (publish_request_queue e)"
    and f: "feed_closed_subscription dh now
        (e\<lparr> publish_request_queue := publish_request_queue e @ [new_publishData r cb e] \<rparr>)
          = Some (True, e')"
  from sends_length[OF feed_closed_subscription_sends[OF f]] l assms(2) show ?thesis
    by (simp add: queue_bounded_def)
next
  fix e2
  assume f: "enqueue_and_feed dh now (new_publishData r cb e) e = Some e2"
    and h: "handle_too_many_requests dh e2 = Some e'"
  from enqueue_and_feed_Some[OF f] obtain r' where
    s: "sends dh (e\<lparr> publish_request_queue := publish_request_queue e
          @ [(new_publishData r cb e)\<lparr> request := r' \<rparr>] \<rparr>) e2"
    by blast
  from sends_length[OF s] assms(2) have "0 < maxPublishRequestInQueue e2"
    by (simp add: queue_bounded_def)
  with handle_too_many_requests_Some[OF h] show ?thesis
    by (auto simp: queue_bounded_def)
qed

lemma on_close_subscription_bounded:
  assumes "on_close_subscription dh now s e = Some e'" and "queue_bounded e"
  shows "queue_bounded e'"
proof -
  from on_close_subscription_Some[OF assms(1)] obtain c m where
    d: "(e' = e\<lparr> closed_subscriptions := c, subscriptions := m \<rparr>)
       \<or> (\<exists>e3. sends dh (e\<lparr> closed_subscriptions := c, subscriptions := m \<rparr>) e3
             \<and> e' = e3\<lparr> callback_calls := callback_calls e3
                 @ map (\<lambda>pd. (callback pd, request pd,
                               delivered_response pd (status_response dh BadNoSubscription)))
                     (publish_request_queue e3),
                publish_request_queue := [] \<rparr>)"
    by blast
  then show ?thesis
  proof
    assume "e' = e\<lparr> closed_subscriptions := c, subscriptions := m \<rparr>"
    with assms(2) show ?thesis by (simp add: queue_bounded_def)
  next
    assume "\<exists>e3. sends dh (e\<lparr> closed_subscriptions := c, subscriptions := m \<rparr>) e3
             \<and> e' = e3\<lparr> callback_calls := callback_calls e3
                 @ map (\<lambda>pd. (callback pd, request pd,
                               delivered_response pd (status_response dh BadNoSubscription)))
                     (publish_request_queue e3),
                publish_request_queue := [] \<rparr>"
    then obtain e3 where s: "sends dh (e\<lparr> closed_subscriptions := c, subscriptions := m \<rparr>) e3"
      and e': "e' = e3\<lparr> callback_calls := callback_calls e3
                 @ map (\<lambda>pd. (callback pd, request pd,
                               delivered_response pd (status_response dh BadNoSubscription)))
                     (publish_request_queue e3),
                publish_request_queue := [] \<rparr>"
      by blast
    from sends_length[OF s] assms(2) e' show ?thesis by (simp add: queue_bounded_def)
  qed
qed

lemma apply_operation_bounded:
  assumes "apply_operation dh self op e = Some e'" and "queue_bounded e"
  shows "queue_bounded e'"
proof (cases op)
  case (On_PublishRequest now r cb)
  with assms show ?thesis by (auto intro: on_PublishRequest_bounded)
next
  case (Send_notification now param force)
  with assms show ?thesis
    by (auto dest!: send_notification_message_sends intro: sends_bounded)
next
  case (Send_keep_alive now k n)
  with assms show ?thesis
    by (auto dest!: send_keep_alive_response_sends intro: sends_bounded)
next
  case (On_tick now)
  with assms show ?thesis
    by (auto dest!: on_tick_Some simp: queue_bounded_def intro: le_trans[OF length_filter_le])
next
  case (Add_subscription s)
  with assms show ?thesis
    by (auto simp: add_subscription_def assert_def bind_eq_Some_conv Let_def
        queue_bounded_def split: if_splits)
next
  case (Detach_subscription s)
  with assms show ?thesis
    by (auto simp: detach_subscription_def assert_def bind_eq_Some_conv queue_bounded_def
        split: if_splits)
next
  case (On_close_subscription now s)
  with assms show ?thesis by (auto intro: on_close_subscription_bounded)
next
  case OnSessionClose
  with assms show ?thesis
    by (auto simp: onSessionClose_def queue_bounded_def
        dest!: cancelPendingPublishRequest_with_Some)
next
  case CancelPendingPublishRequestBeforeChannelChange
  with assms show ?thesis
    by (auto simp: cancelPendingPublishRequestBeforeChannelChange_def queue_bounded_def
        dest!: cancelPendingPublishRequest_with_Some)
next
  case Shutdown
  with assms show ?thesis
    by (auto simp: shutdown_def assert_def queue_bounded_def bind_eq_Some_conv
        split: if_splits)
next
  case (Subscriptions_change f)
  with assms show ?thesis by (auto simp: queue_bounded_def)
qed

lemma run_bounded:
  "run dh self ops e = Some e' \<Longrightarrow> queue_bounded e \<Longrightarrow> queue_bounded e'"
  unfolding run_def
proof (induction ops arbitrary: e)
  case Nil
  then show ?case by simp
next
  case (Cons op ops)
  from Cons.prems(1) obtain e1 where s1: "apply_operation dh self op e = Some e1"
    and s2: "forEach (apply_operation dh self) ops e1 = Some e'"
    by (auto split: option.splits)
  from apply_operation_bounded[OF s1 Cons.prems(2)] Cons.IH[OF s2] show ?case by simp
qed

lemma constructor_bounded: "queue_bounded (constructor options)"
  by (simp add: queue_bounded_def constructor_def split: option.splits)

lemma on_PublishRequest_admission:
  assumes "publish_response_queue e = []" "\<not> isSessionClosed e" "subscriptionCount e \<noteq> 0"
  shows "on_PublishRequest dh now r cb e =
     enqueue_and_feed dh now (new_publishData r cb e) e \<bind> handle_too_many_requests dh"
  using assms
  by (simp add: on_PublishRequest_def process_pending_publish_response_def Let_def)


lemma enqueue_and_feed_over_limit:
  assumes f: "enqueue_and_feed dh now pd e = Some e2"
    and b: "queue_bounded e"
    and over: "maxPublishRequestInQueue e2 < length (publish_request_queue e2)"
  shows "\<exists>oldest rest r'.
             publish_request_queue e = oldest # rest
           \<and> prepare_timeout_info now (request pd) = Some r'
           \<and> length (publish_request_queue e2) = maxPublishRequestInQueue e2 + 1
           \<and> publish_request_queue e2 = oldest # rest @ [pd\<lparr> request := r' \<rparr>]
           \<and> callback_calls e2 = callback_calls e"
proof -
  from enqueue_and_feed_Some[OF f] obtain r' where
    p: "prepare_timeout_info now (request pd) = Some r'" and
    s: "sends dh (e\<lparr> publish_request_queue := publish_request_queue e @ [pd\<lparr> request := r' \<rparr>] \<rparr>) e2"
    by blast
  let ?q = "publish_request_queue e @ [pd\<lparr> request := r' \<rparr>]"
  from s obtain k rs where k: "k \<le> length ?q" "length rs = k"
    and q: "publish_request_queue e2 = drop k ?q"
    and c: "callback_calls e2 = callback_calls e
         @ map (\<lambda>(pd, r). (callback pd, request pd, r)) (zip (take k ?q) rs)"
    and m: "maxPublishRequestInQueue e2 = maxPublishRequestInQueue e"
    unfolding sends_def by auto
  from q have "length (publish_request_queue e2) = length (publish_request_queue e) + 1 - k"
    by simp
  with over m b have k0: "k = 0" and len: "length (publish_request_queue e) = maxPublishRequestInQueue e"
    by (auto simp: queue_bounded_def)
  from len b obtain oldest rest where o: "publish_request_queue e = oldest # rest"
    by (cases "publish_request_queue e") (auto simp: queue_bounded_def)
  from k0 q c k o len m p show ?thesis by simp
qed

section \<open>The closed session\<close>

text \<open>
  \<open>session_invariant dh closed e\<close>: every stashed response is fresh (its request handle
  is \<open>dh\<close>, the one a new response has), and, when \<open>closed\<close> is set, the session is
  closed and no request is pending.
\<close>

definition session_invariant :: "nat \<Rightarrow> bool \<Rightarrow> ServerSidePublishEngine \<Rightarrow> bool" where
  "session_invariant dh closed e \<longleftrightarrow>
     list_all (\<lambda>r. responseHeader_requestHandle r = dh) (publish_response_queue e)
     \<and> (if closed then isSessionClosed e \<and> publish_request_queue e = [] else True)"

lemma session_invariant_simps:
  "session_invariant dh c (e\<lparr> closed_subscriptions := x \<rparr>) = session_invariant dh c e"
  "session_invariant dh c (e\<lparr> subscriptions := m \<rparr>) = session_invariant dh c e"
  "session_invariant dh c (e\<lparr> callback_calls := l \<rparr>) = session_invariant dh c e"
  by (simp_all add: session_invariant_def)

lemma sends_session:
  "sends dh e e' \<Longrightarrow> session_invariant dh c e \<Longrightarrow> session_invariant dh c e'"
  unfolding sends_def session_invariant_def by auto

lemma session_invariant_dequeue:
  assumes "session_invariant dh c e"
    and "publish_response_queue e' = publish_response_queue e"
    and "isSessionClosed e' = isSessionClosed e"
    and "publish_request_queue e = [] \<Longrightarrow> publish_request_queue e' = []"
  shows "session_invariant dh c e'"
  using assms by (auto simp: session_invariant_def)

lemma on_PublishRequest_session:
  assumes "on_PublishRequest dh now r cb e = Some e'" and "session_invariant dh c e"
  shows "session_invariant dh c e'"
  using on_PublishRequest_cases[OF assms(1) refl]
proof (elim disjE conjE exE)
  fix resp rest
  assume "publish_response_queue e = resp # rest"
    "e' = e\<lparr> publish_response_queue := rest,
         callback_calls := callback_calls e
           @ [(callback (new_publishData r cb e), request (new_publishData r cb e),
               delivered_response (new_publishData r cb e) resp)] \<rparr>"
  with assms(2) show ?thesis by (simp add: session_invariant_def)
next
  fix sc
  assume "e' = e\<lparr> callback_calls := callback_calls e
           @ [(callback (new_publishData r cb e), request (new_publishData r cb e),
               delivered_response (new_publishData r cb e) (status_response dh sc))] \<rparr>"
  with assms(2) show ?thesis by (simp add: session_invariant_simps)
next
  assume o: "\<not> isSessionClosed e"
    and f: "feed_closed_subscription dh now
        (e\<lparr> publish_request_queue := publish_request_queue e @ [new_publishData r cb e] \<rparr>)
          = Some (True, e')"
  from o assms(2) have "session_invariant dh c
      (e\<lparr> publish_request_queue := publish_request_queue e @ [new_publishData r cb e] \<rparr>)"
    by (auto simp: session_invariant_def split: if_splits)
  with feed_closed_subscription_sends[OF f] show ?thesis by (rule sends_session)
next
  fix e2
  assume o: "\<not> isSessionClosed e"
    and f: "enqueue_and_feed dh now (new_publishData r cb e) e = Some e2"
    and h: "handle_too_many_requests dh e2 = Some e'"
  from enqueue_and_feed_Some[OF f] obtain r' where
    s: "sends dh (e\<lparr> publish_request_queue := publish_request_queue e
          @ [(new_publishData r cb e)\<lparr> request := r' \<rparr>] \<rparr>) e2"
    by blast
  from o assms(2) have "session_invariant dh c (e\<lparr> publish_request_queue := publish_request_queue e
          @ [(new_publishData r cb e)\<lparr> request := r' \<rparr>] \<rparr>)"
    by (auto simp: session_invariant_def split: if_splits)
  with s have i2: "session_invariant dh c e2" by (rule sends_session)
  from sends_length[OF s] o have "\<not> isSessionClosed e2" by simp
  with i2 handle_too_many_requests_Some[OF h] show ?thesis
    by (auto simp: session_invariant_def split: if_splits)
qed

lemma on_close_subscription_session:
  assumes "on_close_subscription dh now s e = Some e'" and "session_invariant dh c e"
  shows "session_invariant dh c e'"
proof -
  from on_close_subscription_Some[OF assms(1)] obtain x m where
    d: "(e' = e\<lparr> closed_subscriptions := x, subscriptions := m \<rparr>)
       \<or> (\<exists>e3. sends dh (e\<lparr> closed_subscriptions := x, subscriptions := m \<rparr>) e3
             \<and> e' = e3\<lparr> callback_calls := callback_calls e3
                 @ map (\<lambda>pd. (callback pd, request pd,
                               delivered_response pd (status_response dh BadNoSubscription)))
                     (publish_request_queue e3),
                publish_request_queue := [] \<rparr>)"
    by blast
  then show ?thesis
  proof
    assume "e' = e\<lparr> closed_subscriptions := x, subscriptions := m \<rparr>"
    with assms(2) show ?thesis by (simp add: session_invariant_simps)
  next
    assume "\<exists>e3. sends dh (e\<lparr> closed_subscriptions := x, subscriptions := m \<rparr>) e3
             \<and> e' = e3\<lparr> callback_calls := callback_calls e3
                 @ map (\<lambda>pd. (callback pd, request pd,
                               delivered_response pd (status_response dh BadNoSubscription)))
                     (publish_request_queue e3),
                publish_request_queue := [] \<rparr>"
    then obtain e3 where s: "sends dh (e\<lparr> closed_subscriptions := x, subscriptions := m \<rparr>) e3"
      and e': "e' = e3\<lparr> callback_calls := callback_calls e3
                 @ map (\<lambda>pd. (callback pd, request pd,
                               delivered_response pd (status_response dh BadNoSubscription)))
                     (publish_request_queue e3),
                publish_request_queue := [] \<rparr>"
      by blast
    from sends_session[OF s] assms(2) have "session_invariant dh c e3"
      by (simp add: session_invariant_simps)
    with e' show ?thesis
      by - (rule session_invariant_dequeue[where e = e3], simp_all)
  qed
qed

lemma cancel_session:
  "cancelPendingPublishRequest_with dh sc e = Some e' \<Longrightarrow> session_invariant dh c e
     \<Longrightarrow> session_invariant dh c e'"
  by (drule cancelPendingPublishRequest_with_Some)
    (rule session_invariant_dequeue[where e = e], simp_all)

lemma apply_operation_session:
  assumes "apply_operation dh self op e = Some e'" and "session_invariant dh c e"
  shows "session_invariant dh c e'"
proof (cases op)
  case (On_PublishRequest now r cb)
  with assms show ?thesis by (auto intro: on_PublishRequest_session)
next
  case (Send_notification now param force)
  with assms show ?thesis
    by (auto dest!: send_notification_message_sends intro: sends_session)
next
  case (Send_keep_alive now k n)
  with assms show ?thesis
    by (auto dest!: send_keep_alive_response_sends intro: sends_session)
next
  case (On_tick now)
  with assms have "on_tick dh now e = Some e'" by simp
  from on_tick_Some[OF this] assms(2) show ?thesis
    by - (rule session_invariant_dequeue[where e = e], simp_all)
next
  case (Add_subscription s)
  with assms show ?thesis
    by (auto simp: add_subscription_def assert_def bind_eq_Some_conv Let_def
        session_invariant_simps split: if_splits)
next
  case (Detach_subscription s)
  with assms show ?thesis
    by (auto simp: detach_subscription_def assert_def bind_eq_Some_conv session_invariant_simps
        split: if_splits)
next
  case (On_close_subscription now s)
  with assms show ?thesis by (auto intro: on_close_subscription_session)
next
  case OnSessionClose
  with assms have "cancelPendingPublishRequest_with dh BadSessionClosed
      (e\<lparr> isSessionClosed := True \<rparr>) = Some e'"
    by (simp add: onSessionClose_def)
  from cancelPendingPublishRequest_with_Some[OF this] assms(2) show ?thesis
    by (auto simp: session_invariant_def split: if_splits)
next
  case CancelPendingPublishRequestBeforeChannelChange
  with assms show ?thesis
    by (auto simp: cancelPendingPublishRequestBeforeChannelChange_def intro: cancel_session)
next
  case Shutdown
  with assms show ?thesis
    by (auto simp: shutdown_def assert_def session_invariant_def bind_eq_Some_conv
        split: if_splits)
next
  case (Subscriptions_change f)
  with assms show ?thesis by (auto simp: session_invariant_def)
qed

lemma run_session:
  "run dh self ops e = Some e' \<Longrightarrow> session_invariant dh c e \<Longrightarrow> session_invariant dh c e'"
  unfolding run_def
proof (induction ops arbitrary: e)
  case Nil
  then show ?case by simp
next
  case (Cons op ops)
  from Cons.prems(1) obtain e1 where s1: "apply_operation dh self op e = Some e1"
    and s2: "forEach (apply_operation dh self) ops e1 = Some e'"
    by (auto split: option.splits)
  from apply_operation_session[OF s1 Cons.prems(2)] Cons.IH[OF s2] show ?case by simp
qed

lemma on_PublishRequest_session_closed:
  assumes "dh \<noteq> 0" and "session_invariant dh True e"
  shows "on_PublishRequest dh now r cb e =
     Some (case publish_response_queue e of
             [] \<Rightarrow> e\<lparr> callback_calls := callback_calls e
                       @ [(callback (new_publishData r cb e), request (new_publishData r cb e),
                           delivered_response (new_publishData r cb e)
                             (status_response dh BadSessionClosed))] \<rparr>
           | resp # rest \<Rightarrow>
               e\<lparr> publish_response_queue := rest,
                  callback_calls := callback_calls e
                    @ [(callback (new_publishData r cb e), request (new_publishData r cb e),
                        delivered_response (new_publishData r cb e) resp)] \<rparr>)"
  using assms
  by (cases "publish_response_queue e")
    (simp_all add: on_PublishRequest_def process_pending_publish_response_def Let_def
      session_invariant_def assert_def send_response_for_request_eq send_error_for_request_eq)

section \<open>A request that finds no subscription\<close>

lemma send_notification_message_subscription_calls:
  "send_notification_message dh now param force e = Some e'
     \<Longrightarrow> subscription_calls e' = subscription_calls e"
  by (auto simp: send_notification_message_def assert_def Let_def bind_eq_Some_conv
      send_response_for_request_eq split: if_splits list.splits)

lemma perform_call_subscription_calls:
  "perform_call dh now c e = Some e' \<Longrightarrow> subscription_calls e' = subscription_calls e"
  by (cases c)
    (auto simp: send_keep_alive_response_def bind_eq_Some_conv
      dest!: send_notification_message_subscription_calls split: option.splits if_splits)

lemma perform_calls_subscription_calls:
  "perform_calls dh now cs e = Some e' \<Longrightarrow> subscription_calls e' = subscription_calls e"
  unfolding perform_calls_def
  by (induction cs arbitrary: e) (auto dest: perform_call_subscription_calls split: option.splits)

lemma closed_drain_result:
  assumes pre: "subscriptionCount e = 0" "\<not> isSessionClosed e" "publish_response_queue e = []"
    and head: "closed_subscriptions e = s # cs" "hasPendingNotifications s"
    and call: "on_PublishRequest dh now r cb e = Some e'"
  shows "\<exists>x rest resp.
            publish_request_queue e @ [new_publishData r cb e] = x # rest
          \<and> publish_request_queue e' = rest
          \<and> notification_reply resp
          \<and> callback_calls e' = callback_calls e @ [(callback x, request x, resp)]
          \<and> closed_subscriptions e' = cs
          \<and> subscription_calls e' = subscription_calls e
               @ [(id_sub s, Publish_pending_notifications)]"
proof -
  let ?pd = "new_publishData r cb e"
  let ?e2 = "e\<lparr> publish_request_queue := publish_request_queue e @ [?pd] \<rparr>"
  from pre head call have f: "feed_closed_subscription dh now ?e2 = Some (True, e')"
    and len: "length (publish_request_queue e') = length (publish_request_queue e)"
    by (auto simp: on_PublishRequest_def process_pending_publish_response_def Let_def
        bind_eq_Some_conv assert_def split: if_splits)
  let ?e2' = "?e2\<lparr> closed_subscriptions := cs,
      subscription_calls := subscription_calls e @ [(id_sub s, Publish_pending_notifications)] \<rparr>"
  from feed_closed_subscription_cases[OF f] head
  have p: "perform_calls dh now (publish_pending_notifications s) ?e2' = Some e'"
    by simp
  from perform_calls_sends[OF p] obtain k rs where k: "k \<le> length (publish_request_queue e) + 1"
    "length rs = k" "list_all notification_reply rs"
    and q: "publish_request_queue e' = drop k (publish_request_queue e @ [?pd])"
    and c: "callback_calls e' = callback_calls e
         @ map (\<lambda>(pd, r). (callback pd, request pd, r))
             (zip (take k (publish_request_queue e @ [?pd])) rs)"
    unfolding sends_def by auto
  from q len k(1) have k1: "k = 1" by simp
  with k obtain resp where rs: "rs = [resp]" and nr: "notification_reply resp"
    by (cases rs) auto
  obtain x rest where xr: "publish_request_queue e @ [?pd] = x # rest"
    by (cases "publish_request_queue e @ [?pd]") auto
  from q k1 xr have q': "publish_request_queue e' = rest" by simp
  from c k1 rs xr have c': "callback_calls e' = callback_calls e @ [(callback x, request x, resp)]"
    by simp
  from perform_calls_closed[OF p] have cl: "closed_subscriptions e' = cs" by simp
  from perform_calls_subscription_calls[OF p]
  have sc: "subscription_calls e' = subscription_calls e
      @ [(id_sub s, Publish_pending_notifications)]" by simp
  from xr q' nr c' cl sc show ?thesis by blast
qed

lemma closed_drain_returns:
  assumes pre: "subscriptionCount e = 0" "\<not> isSessionClosed e" "publish_response_queue e = []"
    and head: "closed_subscriptions e = s # cs" "hasPendingNotifications s"
    and script: "publish_pending_notifications s = [Send_notification_message param force]"
    and dh: "dh \<noteq> 0"
  shows "on_PublishRequest dh now r cb e \<noteq> None"
proof -
  obtain x rest where xr: "publish_request_queue e @ [new_publishData r cb e] = x # rest"
    by (cases "publish_request_queue e @ [new_publishData r cb e]") auto
  then have "length rest = length (publish_request_queue e)"
    by (metis length_append_singleton length_Cons nat.inject)
  with pre head script dh xr show ?thesis
    by (simp add: on_PublishRequest_def process_pending_publish_response_def Let_def
        feed_closed_subscription_def pendingPublishRequestCount_def perform_calls_def
        send_notification_message_def assert_def send_response_for_request_eq
        notification_response_handle)
qed

lemma no_subscription_reply:
  assumes pre: "subscriptionCount e = 0" "\<not> isSessionClosed e" "publish_response_queue e = []"
    and head: "closed_subscriptions e = [] \<or> \<not> hasPendingNotifications (hd (closed_subscriptions e))"
    and dh: "dh \<noteq> 0"
  shows "on_PublishRequest dh now r cb e =
     Some (e\<lparr> callback_calls := callback_calls e
              @ [(callback (new_publishData r cb e), request (new_publishData r cb e),
                  delivered_response (new_publishData r cb e)
                    (status_response dh BadNoSubscription))] \<rparr>)"
  using assms
  by (cases "closed_subscriptions e")
    (simp_all add: on_PublishRequest_def process_pending_publish_response_def Let_def
      send_error_for_request_eq)

section \<open>Transfer\<close>

lemma map_of_object_set:
  "map_of (object_set k v m) k' = (if k' = k then Some v else map_of m k')"
  by (induction m) auto

lemma map_of_object_delete:
  "map_of (object_delete k m) k' = (if k' = k then None else map_of m k')"
  unfolding object_delete_def by (induction m) auto

lemma send_notification_message_subscriptions:
  "send_notification_message dh now param force e = Some e' \<Longrightarrow> subscriptions e' = subscriptions e"
  by (drule send_notification_message_sends) (auto simp: sends_def)

lemma send_notification_message_forced:
  "dh \<noteq> 0 \<Longrightarrow> send_notification_message dh now param True e \<noteq> None"
  by (cases "publish_request_queue e")
    (simp_all add: send_notification_message_def assert_def pendingPublishRequestCount_def
      send_response_for_request_eq notification_response_handle)

lemma transferSubscription_result:
  assumes attached: "publishEngine s = Some E1"
      "map_of (subscriptions (engines w E1)) (id_sub s) = Some s"
    and distinct: "E2 \<noteq> E1"
    and ret: "transferSubscription dh now s E2 sendInitialValues w = Some (s', w')"
  shows "s' = s\<lparr> publishEngine := Some E2 \<rparr>
     \<and> method_calls w' = method_calls w
          @ [(id_sub s, NotifyTransfer), (id_sub s, ResetLifeTimeCounter)]
          @ (if sendInitialValues then [(id_sub s, ResendInitialValues)] else [])
     \<and> map_of (subscriptions (engines w' E1)) (id_sub s) = None
     \<and> map_of (subscriptions (engines w' E2)) (id_sub s) = Some s'
     \<and> (\<exists>e1. send_notification_message dh now (transfer_notification s) True (engines w E1)
                 = Some e1
             \<and> engines w' E1
                 = e1\<lparr> subscriptions := object_delete (id_sub s) (subscriptions e1) \<rparr>)
     \<and> engines w' E2 = (engines w E2)\<lparr> subscriptions :=
           object_set (id_sub s) s' (subscriptions (engines w E2)) \<rparr>
     \<and> (\<forall>E. E \<noteq> E1 \<and> E \<noteq> E2 \<longrightarrow> engines w' E = engines w E)"
proof -
  from ret attached(1) obtain e1 where
    n: "send_notification_message dh now (transfer_notification s) True (engines w E1) = Some e1"
    by (auto simp: transferSubscription_def notifyTransfer_def transfer_notification_def
        bind_eq_Some_conv Let_def)
  let ?w1 = "w\<lparr> engines := (engines w)(E1 := e1),
               method_calls := method_calls w @ [(id_sub s, NotifyTransfer)] \<rparr>"
  have w1: "notifyTransfer dh now s w = Some ?w1"
    using n attached(1) by (simp add: notifyTransfer_def transfer_notification_def)
  let ?d = "s\<lparr> publishEngine := None \<rparr>"
  let ?e_src = "e1\<lparr> subscriptions := object_delete (id_sub s) (subscriptions e1) \<rparr>"
  have d: "detach_subscription E1 s (engines ?w1 E1) = Some (?d, ?e_src)"
    using attached send_notification_message_subscriptions[OF n]
    by (simp add: detach_subscription_def assert_def)
  let ?w2 = "?w1\<lparr> engines := (engines ?w1)(E1 := ?e_src) \<rparr>"
  let ?a = "s\<lparr> publishEngine := Some E2 \<rparr>"
  from ret w1 d attached(1) distinct
  obtain e_dest where a: "add_subscription E2 ?d (engines w E2) = Some (s', e_dest)"
    and w': "w' = (let w3 = ?w2\<lparr> engines := (engines ?w2)(E2 := e_dest) \<rparr>;
                      w4 = w3\<lparr> method_calls := method_calls w3 @ [(id_sub s', ResetLifeTimeCounter)] \<rparr>
                  in if sendInitialValues
                     then w4\<lparr> method_calls := method_calls w4 @ [(id_sub s', ResendInitialValues)] \<rparr>
                     else w4)"
    by (auto simp: transferSubscription_def bind_eq_Some_conv Let_def split: if_splits)
  from a have s': "s' = ?a"
    and e_dest: "e_dest = (engines w E2)\<lparr> subscriptions :=
           object_set (id_sub s) ?a (subscriptions (engines w E2)) \<rparr>"
    by (auto simp: add_subscription_def assert_def bind_eq_Some_conv Let_def split: if_splits)
  from w' s' e_dest distinct n show ?thesis
    by (auto simp: Let_def map_of_object_set map_of_object_delete)
qed

lemma transferSubscription_returns:
  assumes attached: "publishEngine s = Some E1"
      "map_of (subscriptions (engines w E1)) (id_sub s) = Some s"
    and distinct: "E2 \<noteq> E1"
    and free: "map_of (subscriptions (engines w E2)) (id_sub s) = None"
    and dh: "dh \<noteq> 0"
  shows "transferSubscription dh now s E2 sendInitialValues w \<noteq> None"
proof -
  from send_notification_message_forced[OF dh] obtain e1 where
    n: "send_notification_message dh now (transfer_notification s) True (engines w E1) = Some e1"
    by blast
  from send_notification_message_subscriptions[OF n] attached distinct free n show ?thesis
    by (simp add: transferSubscription_def notifyTransfer_def transfer_notification_def
        detach_subscription_def add_subscription_def assert_def Let_def)
qed

section \<open>Sorting with a comparison function that is never negative\<close>

lemma insert_pivot_never_negative:
  fixes comparefn :: "'a \<Rightarrow> 'a \<Rightarrow> int"
  assumes "\<And>a b. 0 \<le> comparefn a b"
  shows "insert_pivot comparefn x ys = x # ys"
proof (cases ys)
  case Nil
  then show ?thesis by simp
next
  case (Cons y zs)
  with assms[of x y] show ?thesis by simp
qed

lemma Array_sort_never_negative:
  fixes comparefn :: "'a \<Rightarrow> 'a \<Rightarrow> int"
  assumes "\<And>a b. 0 \<le> comparefn a b"
  shows "Array_sort comparefn xs = xs"
proof -
  have "foldl (\<lambda>ys x. insert_pivot comparefn x ys) acc xs = rev xs @ acc" for acc
    by (induction xs arbitrary: acc) (simp_all add: insert_pivot_never_negative[OF assms])
  then show ?thesis by (simp add: Array_sort_def)
qed

lemma compare_subscriptions_never_negative:
  "0 \<le> ToNumber (compare_subscriptions s1 s2)"
  by (simp add: ToNumber_def)

lemma findLateSubscriptionSortedByPriority_last:
  "findLateSubscriptionSortedByPriority e =
     (case rev (findLateSubscriptions e) of [] \<Rightarrow> None | s # _ \<Rightarrow> Some s)"
  by (cases "findLateSubscriptions e")
    (simp_all add: findLateSubscriptionSortedByPriority_def Let_def
      Array_sort_never_negative[OF compare_subscriptions_never_negative])

section \<open>Accounting for the accepted requests\<close>

text \<open>
  \<open>accepted ops\<close> lists the callbacks of the requests that the operations \<open>ops\<close> hand to
  \<open>on_PublishRequest\<close>; \<open>discarded dh self ops e\<close> lists the callbacks of the requests
  that are pending when a \<open>shutdown\<close> among \<open>ops\<close>, run from \<open>e\<close>, empties the queue.
\<close>

fun accepted_by :: "operation \<Rightarrow> callback_fn list" where
  "accepted_by (On_PublishRequest now r cb) =
     [case cb of None \<Rightarrow> dummy_function | Some c \<Rightarrow> c]"
| "accepted_by _ = []"

fun discarded_by :: "operation \<Rightarrow> ServerSidePublishEngine \<Rightarrow> callback_fn list" where
  "discarded_by Shutdown e = map callback (publish_request_queue e)"
| "discarded_by _ e = []"

fun accepted :: "operation list \<Rightarrow> callback_fn list" where
  "accepted [] = []"
| "accepted (op # ops) = accepted_by op @ accepted ops"

fun discarded :: "nat \<Rightarrow> nat \<Rightarrow> operation list \<Rightarrow> ServerSidePublishEngine \<Rightarrow> callback_fn list" where
  "discarded dh self [] e = []"
| "discarded dh self (op # ops) e =
     discarded_by op e
     @ (case apply_operation dh self op e of
          None \<Rightarrow> []
        | Some e' \<Rightarrow> discarded dh self ops e')"

lemma ledger_simps:
  "ledger (e\<lparr> closed_subscriptions := c \<rparr>) = ledger e"
  "ledger (e\<lparr> subscriptions := m \<rparr>) = ledger e"
  "ledger (e\<lparr> isSessionClosed := b \<rparr>) = ledger e"
  "ledger (e\<lparr> publish_response_queue := p \<rparr>) = ledger e"
  by (simp_all add: ledger_def)

lemma callback_new_publishData:
  "callback (new_publishData r cb e) = (case cb of None \<Rightarrow> dummy_function | Some c \<Rightarrow> c)"
  by (simp add: new_publishData_def Let_def)

lemma on_PublishRequest_ledger:
  assumes "on_PublishRequest dh now r cb e = Some e'"
  shows "ledger e' = ledger e + {# callback (new_publishData r cb e) #}"
  using on_PublishRequest_cases[OF assms(1) refl]
proof (elim disjE conjE exE)
  fix resp rest
  assume "e' = e\<lparr> publish_response_queue := rest,
         callback_calls := callback_calls e
           @ [(callback (new_publishData r cb e), request (new_publishData r cb e),
               delivered_response (new_publishData r cb e) resp)] \<rparr>"
  then show ?thesis by (simp add: ledger_def)
next
  fix sc
  assume "e' = e\<lparr> callback_calls := callback_calls e
           @ [(callback (new_publishData r cb e), request (new_publishData r cb e),
               delivered_response (new_publishData r cb e) (status_response dh sc))] \<rparr>"
  then show ?thesis by (simp add: ledger_def)
next
  assume f: "feed_closed_subscription dh now
        (e\<lparr> publish_request_queue := publish_request_queue e @ [new_publishData r cb e] \<rparr>)
          = Some (True, e')"
  from sends_ledger[OF feed_closed_subscription_sends[OF f]] show ?thesis
    by (simp add: ledger_def)
next
  fix e2
  assume f: "enqueue_and_feed dh now (new_publishData r cb e) e = Some e2"
    and h: "handle_too_many_requests dh e2 = Some e'"
  from enqueue_and_feed_Some[OF f] obtain r' where
    s: "sends dh (e\<lparr> publish_request_queue := publish_request_queue e
          @ [(new_publishData r cb e)\<lparr> request := r' \<rparr>] \<rparr>) e2"
    by blast
  from sends_ledger[OF s] have "ledger e2 = ledger e + {# callback (new_publishData r cb e) #}"
    by (simp add: ledger_def)
  moreover from handle_too_many_requests_Some[OF h] have "ledger e' = ledger e2"
    by (auto simp: ledger_def)
  ultimately show ?thesis by simp
qed

lemma on_close_subscription_ledger:
  assumes "on_close_subscription dh now s e = Some e'"
  shows "ledger e' = ledger e"
proof -
  from on_close_subscription_Some[OF assms(1)] obtain c m where
    d: "(e' = e\<lparr> closed_subscriptions := c, subscriptions := m \<rparr>)
       \<or> (\<exists>e3. sends dh (e\<lparr> closed_subscriptions := c, subscriptions := m \<rparr>) e3
             \<and> e' = e3\<lparr> callback_calls := callback_calls e3
                 @ map (\<lambda>pd. (callback pd, request pd,
                               delivered_response pd (status_response dh BadNoSubscription)))
                     (publish_request_queue e3),
                publish_request_queue := [] \<rparr>)"
    by blast
  then show ?thesis
  proof
    assume "e' = e\<lparr> closed_subscriptions := c, subscriptions := m \<rparr>"
    then show ?thesis by (simp add: ledger_def)
  next
    assume "\<exists>e3. sends dh (e\<lparr> closed_subscriptions := c, subscriptions := m \<rparr>) e3
             \<and> e' = e3\<lparr> callback_calls := callback_calls e3
                 @ map (\<lambda>pd. (callback pd, request pd,
                               delivered_response pd (status_response dh BadNoSubscription)))
                     (publish_request_queue e3),
                publish_request_queue := [] \<rparr>"
    then obtain e3 where s: "sends dh (e\<lparr> closed_subscriptions := c, subscriptions := m \<rparr>) e3"
      and e': "e' = e3\<lparr> callback_calls := callback_calls e3
                 @ map (\<lambda>pd. (callback pd, request pd,
                               delivered_response pd (status_response dh BadNoSubscription)))
                     (publish_request_queue e3),
                publish_request_queue := [] \<rparr>"
      by blast
    from e' have "ledger e' = ledger e3" by (simp add: ledger_def comp_def)
    with sends_ledger[OF s] show ?thesis by (simp add: ledger_def)
  qed
qed

lemma cancel_ledger:
  "cancelPendingPublishRequest_with dh sc e = Some e' \<Longrightarrow> ledger e' = ledger e"
  by (drule cancelPendingPublishRequest_with_Some) (simp add: ledger_def comp_def)

lemma mset_map_partition:
  "mset (map f xs) = mset (map f (filter P xs)) + mset (map f (filter (\<lambda>x. \<not> P x) xs))"
  by (induction xs) simp_all

lemma apply_operation_ledger:
  assumes "apply_operation dh self op e = Some e'"
  shows "ledger e + mset (accepted_by op) = ledger e' + mset (discarded_by op e)"
proof (cases op)
  case (On_PublishRequest now r cb)
  with assms on_PublishRequest_ledger[of dh now r cb e e'] show ?thesis
    by (simp add: callback_new_publishData)
next
  case (Send_notification now param force)
  with assms show ?thesis
    by (auto dest!: send_notification_message_sends sends_ledger)
next
  case (Send_keep_alive now k n)
  with assms show ?thesis
    by (auto dest!: send_keep_alive_response_sends sends_ledger)
next
  case (On_tick now)
  with assms have "e' = e\<lparr> publish_request_queue :=
                     filter (\<lambda>pd. \<not> timeout_filter now pd) (publish_request_queue e),
                   callback_calls := callback_calls e
                     @ map (\<lambda>pd. (callback pd, request pd,
                                   delivered_response pd (status_response dh BadTimeout)))
                         (filter (timeout_filter now) (publish_request_queue e)) \<rparr>"
    by (auto dest!: on_tick_Some)
  moreover have "mset (map callback (publish_request_queue e))
      = mset (map callback (filter (timeout_filter now) (publish_request_queue e)))
        + mset (map callback (filter (\<lambda>pd. \<not> timeout_filter now pd) (publish_request_queue e)))"
    by (rule mset_map_partition)
  ultimately show ?thesis using On_tick
    by (simp add: ledger_def comp_def)
next
  case (Add_subscription s)
  with assms show ?thesis
    by (auto simp: add_subscription_def assert_def bind_eq_Some_conv Let_def
        ledger_def split: if_splits)
next
  case (Detach_subscription s)
  with assms show ?thesis
    by (auto simp: detach_subscription_def assert_def bind_eq_Some_conv ledger_def
        split: if_splits)
next
  case (On_close_subscription now s)
  with assms show ?thesis by (auto dest: on_close_subscription_ledger)
next
  case OnSessionClose
  with assms show ?thesis
    by (auto simp: onSessionClose_def ledger_simps dest!: cancel_ledger)
next
  case CancelPendingPublishRequestBeforeChannelChange
  with assms show ?thesis
    by (auto simp: cancelPendingPublishRequestBeforeChannelChange_def dest!: cancel_ledger)
next
  case Shutdown
  with assms show ?thesis
    by (auto simp: shutdown_def assert_def ledger_def bind_eq_Some_conv
        split: if_splits)
next
  case (Subscriptions_change f)
  with assms show ?thesis by (auto simp: ledger_def)
qed

lemma run_ledger:
  "run dh self ops e = Some e' \<Longrightarrow>
   ledger e + mset (accepted ops) = ledger e' + mset (discarded dh self ops e)"
  unfolding run_def
proof (induction ops arbitrary: e)
  case Nil
  then show ?case by simp
next
  case (Cons op ops)
  from Cons.prems(1) obtain e1 where s1: "apply_operation dh self op e = Some e1"
    and s2: "forEach (apply_operation dh self) ops e1 = Some e'"
    by (auto split: option.splits)
  have "ledger e + mset (accepted (op # ops))
      = (ledger e + mset (accepted_by op)) + mset (accepted ops)"
    by simp
  also have "\<dots> = (ledger e1 + mset (discarded_by op e)) + mset (accepted ops)"
    using apply_operation_ledger[OF s1] by simp
  also have "\<dots> = (ledger e1 + mset (accepted ops)) + mset (discarded_by op e)"
    by simp
  also have "\<dots> = (ledger e' + mset (discarded dh self ops e1)) + mset (discarded_by op e)"
    using Cons.IH[OF s2] by simp
  also have "\<dots> = ledger e' + mset (discarded dh self (op # ops) e)"
    using s1 by simp
  finally show ?case .
qed


lemma replies_typed_simps:
  "replies_typed (e\<lparr> closed_subscriptions := c \<rparr>) = replies_typed e"
  "replies_typed (e\<lparr> subscriptions := m \<rparr>) = replies_typed e"
  "replies_typed (e\<lparr> isSessionClosed := b \<rparr>) = replies_typed e"
  "replies_typed (e\<lparr> publish_request_queue := q \<rparr>) = replies_typed e"
  by (simp_all add: replies_typed_def)

lemma replies_typed_status:
  assumes "replies_typed e"
    and "publish_response_queue e' = publish_response_queue e"
    and "callback_calls e' = callback_calls e
       @ map (\<lambda>pd. (callback pd, request pd, delivered_response pd (status_response dh sc))) pds"
  shows "replies_typed e'"
  using assms by (auto simp: replies_typed_def list_all_iff)

lemma on_PublishRequest_typed:
  assumes "on_PublishRequest dh now r cb e = Some e'" and "replies_typed e"
  shows "replies_typed e'"
  using on_PublishRequest_cases[OF assms(1) refl]
proof (elim disjE conjE exE)
  fix resp rest
  assume "publish_response_queue e = resp # rest"
    "e' = e\<lparr> publish_response_queue := rest,
         callback_calls := callback_calls e
           @ [(callback (new_publishData r cb e), request (new_publishData r cb e),
               delivered_response (new_publishData r cb e) resp)] \<rparr>"
  with assms(2) show ?thesis by (simp add: replies_typed_def)
next
  fix sc
  assume "e' = e\<lparr> callback_calls := callback_calls e
           @ [(callback (new_publishData r cb e), request (new_publishData r cb e),
               delivered_response (new_publishData r cb e) (status_response dh sc))] \<rparr>"
  with assms(2) show ?thesis
    by - (rule replies_typed_status[where pds = "[new_publishData r cb e]" and e = e
          and dh = dh and sc = sc], simp_all)
next
  assume f: "feed_closed_subscription dh now
        (e\<lparr> publish_request_queue := publish_request_queue e @ [new_publishData r cb e] \<rparr>)
          = Some (True, e')"
  from sends_typed[OF feed_closed_subscription_sends[OF f]] assms(2) show ?thesis
    by (simp add: replies_typed_simps)
next
  fix e2
  assume f: "enqueue_and_feed dh now (new_publishData r cb e) e = Some e2"
    and h: "handle_too_many_requests dh e2 = Some e'"
  from enqueue_and_feed_Some[OF f] obtain r' where
    s: "sends dh (e\<lparr> publish_request_queue := publish_request_queue e
          @ [(new_publishData r cb e)\<lparr> request := r' \<rparr>] \<rparr>) e2"
    by blast
  from sends_typed[OF s] assms(2) have "replies_typed e2"
    by (simp add: replies_typed_simps)
  from handle_too_many_requests_Some[OF h] show ?thesis
  proof (elim disjE conjE exE)
    assume "e' = e2"
    with \<open>replies_typed e2\<close> show ?thesis by simp
  next
    fix pd rest
    assume "e' = e2\<lparr> publish_request_queue := rest,
        callback_calls := callback_calls e2
          @ [(callback pd, request pd,
              delivered_response pd (status_response dh BadTooManyPublishRequests))] \<rparr>"
    with \<open>replies_typed e2\<close> show ?thesis
      by - (rule replies_typed_status[where e = e2 and pds = "[pd]" and dh = dh
            and sc = BadTooManyPublishRequests], simp_all)
  qed
qed

lemma on_close_subscription_typed:
  assumes "on_close_subscription dh now s e = Some e'" and "replies_typed e"
  shows "replies_typed e'"
proof -
  from on_close_subscription_Some[OF assms(1)] obtain c m where
    d: "(e' = e\<lparr> closed_subscriptions := c, subscriptions := m \<rparr>)
       \<or> (\<exists>e3. sends dh (e\<lparr> closed_subscriptions := c, subscriptions := m \<rparr>) e3
             \<and> e' = e3\<lparr> callback_calls := callback_calls e3
                 @ map (\<lambda>pd. (callback pd, request pd,
                               delivered_response pd (status_response dh BadNoSubscription)))
                     (publish_request_queue e3),
                publish_request_queue := [] \<rparr>)"
    by blast
  then show ?thesis
  proof
    assume "e' = e\<lparr> closed_subscriptions := c, subscriptions := m \<rparr>"
    with assms(2) show ?thesis by (simp add: replies_typed_simps)
  next
    assume "\<exists>e3. sends dh (e\<lparr> closed_subscriptions := c, subscriptions := m \<rparr>) e3
             \<and> e' = e3\<lparr> callback_calls := callback_calls e3
                 @ map (\<lambda>pd. (callback pd, request pd,
                               delivered_response pd (status_response dh BadNoSubscription)))
                     (publish_request_queue e3),
                publish_request_queue := [] \<rparr>"
    then obtain e3 where s: "sends dh (e\<lparr> closed_subscriptions := c, subscriptions := m \<rparr>) e3"
      and e': "e' = e3\<lparr> callback_calls := callback_calls e3
                 @ map (\<lambda>pd. (callback pd, request pd,
                               delivered_response pd (status_response dh BadNoSubscription)))
                     (publish_request_queue e3),
                publish_request_queue := [] \<rparr>"
      by blast
    from sends_typed[OF s] assms(2) have "replies_typed e3"
      by (simp add: replies_typed_simps)
    from this e' show ?thesis
      by - (rule replies_typed_status[where e = e3 and pds = "publish_request_queue e3"
            and dh = dh and sc = BadNoSubscription], simp_all)
  qed
qed

lemma cancel_typed:
  "cancelPendingPublishRequest_with dh sc e = Some e' \<Longrightarrow> replies_typed e \<Longrightarrow> replies_typed e'"
  by (drule cancelPendingPublishRequest_with_Some)
    (rule replies_typed_status[where e = e and pds = "publish_request_queue e"
        and dh = dh and sc = sc], simp_all)

lemma apply_operation_typed:
  assumes "apply_operation dh self op e = Some e'" and "replies_typed e"
  shows "replies_typed e'"
proof (cases op)
  case (On_PublishRequest now r cb)
  with assms show ?thesis by (auto intro: on_PublishRequest_typed)
next
  case (Send_notification now param force)
  with assms show ?thesis
    by (auto dest!: send_notification_message_sends intro: sends_typed)
next
  case (Send_keep_alive now k n)
  with assms show ?thesis
    by (auto dest!: send_keep_alive_response_sends intro: sends_typed)
next
  case (On_tick now)
  with assms have "on_tick dh now e = Some e'" by simp
  from on_tick_Some[OF this] assms(2) show ?thesis
    by - (rule replies_typed_status[where e = e and dh = dh and sc = BadTimeout
          and pds = "filter (timeout_filter now) (publish_request_queue e)"], simp_all)
next
  case (Add_subscription s)
  with assms show ?thesis
    by (auto simp: add_subscription_def assert_def bind_eq_Some_conv Let_def
        replies_typed_simps split: if_splits)
next
  case (Detach_subscription s)
  with assms show ?thesis
    by (auto simp: detach_subscription_def assert_def bind_eq_Some_conv replies_typed_simps
        split: if_splits)
next
  case (On_close_subscription now s)
  with assms show ?thesis by (auto intro: on_close_subscription_typed)
next
  case OnSessionClose
  with assms show ?thesis
    by (auto simp: onSessionClose_def replies_typed_simps dest!: cancel_typed)
next
  case CancelPendingPublishRequestBeforeChannelChange
  with assms show ?thesis
    by (auto simp: cancelPendingPublishRequestBeforeChannelChange_def dest!: cancel_typed)
next
  case Shutdown
  with assms show ?thesis
    by (auto simp: shutdown_def assert_def replies_typed_def bind_eq_Some_conv
        split: if_splits)
next
  case (Subscriptions_change f)
  with assms show ?thesis by (auto simp: replies_typed_def)
qed

lemma run_typed:
  "run dh self ops e = Some e' \<Longrightarrow> replies_typed e \<Longrightarrow> replies_typed e'"
  unfolding run_def
proof (induction ops arbitrary: e)
  case Nil
  then show ?case by simp
next
  case (Cons op ops)
  from Cons.prems(1) obtain e1 where s1: "apply_operation dh self op e = Some e1"
    and s2: "forEach (apply_operation dh self) ops e1 = Some e'"
    by (auto split: option.splits)
  from apply_operation_typed[OF s1 Cons.prems(2)] Cons.IH[OF s2] show ?case by simp
qed

lemma discarded_without_shutdown:
  "list_all (\<lambda>op. op \<noteq> Shutdown) ops \<Longrightarrow> discarded dh self ops e = []"
proof (induction ops arbitrary: e)
  case Nil
  then show ?case by simp
next
  case (Cons op ops)
  then show ?case by (cases op) (auto split: option.splits)
qed

section \<open>Deadlines of the queued requests\<close>












section \<open>Example states\<close>

text \<open>
  A subscription that is neither late nor has anything to send, a request with a timeout
  hint of one second, and the engine after the subscription was added and the request
  arrived at time 100 (the request waits in the queue).
\<close>

definition subscription_1 :: Subscription where
  "subscription_1 =
     \<lparr> id_sub = 1, priority = 0, publishingEnabled = True, state = NORMAL, messageSent = True,
       timeToExpiration = 10, hasPendingNotifications = False, nextSequenceNumber = 1,
       publishEngine = None, getAvailableSequenceNumbers = [], acknowledgeNotification = [],
       process_subscription = [], publish_pending_notifications = [] \<rparr>"

definition request_1 :: PublishRequest where
  "request_1 =
     \<lparr> requestHeader_requestHandle = 42, requestHeader_timeoutHint = 1000,
       subscriptionAcknowledgements = [], received_time = None, timeout_time = None \<rparr>"

definition engine_with_request :: ServerSidePublishEngine where
  "engine_with_request =
     (case run 7 0 [Add_subscription subscription_1,
                    On_PublishRequest 100 request_1 (Some (Callback 1))] (constructor None) of
        Some e \<Rightarrow> e
      | None \<Rightarrow> constructor None)"

lemma engine_with_request_queue:
  "publish_request_queue engine_with_request =
     [\<lparr> request = request_1\<lparr> received_time := Some 100, timeout_time := Some 1100 \<rparr>,
        results = [], callback = Callback 1 \<rparr>]"
  by code_simp

lemma engine_with_request_calls: "callback_calls engine_with_request = []"
  by code_simp

section \<open>The claims\<close>

text \<open>
  Claim C10. A call of \<open>send_notification_message\<close> whose subscription id is not a key
  of the engine's subscription map still builds the response, and delivers it to the
  oldest pending request or stashes it, with the empty list as its available sequence
  numbers. The call is one the method accepts (a request is pending or \<open>force\<close> is set),
  and \<open>dh\<close>, the request handle of a fresh response, is not 0, as the assertion of
  \<open>send_response_for_request\<close> wants it.
\<close>

theorem send_notification_message_unknown_subscription:
  assumes "getSubscriptionById (param_subscriptionId param) e = None"
    and "publish_request_queue e \<noteq> [] \<or> force"
    and "dh \<noteq> 0"
  shows "send_notification_message dh now param force e =
           Some (case publish_request_queue e of
                   [] \<Rightarrow> e\<lparr> publish_response_queue := publish_response_queue e
                               @ [notification_response dh now param []] \<rparr>
                 | pd # rest \<Rightarrow>
                     e\<lparr> publish_request_queue := rest,
                        callback_calls := callback_calls e
                          @ [(callback pd, request pd,
                              delivered_response pd (notification_response dh now param []))] \<rparr>)
         \<and> availableSequenceNumbers (notification_response dh now param []) = Some []"
  using assms
  by (cases "publish_request_queue e")
    (simp_all add: send_notification_message_def assert_def pendingPublishRequestCount_def
      send_response_for_request_eq notification_response_def)

theorem send_notification_message_unknown_subscription_witness:
  "getSubscriptionById 9 engine_with_request = None
   \<and> publish_request_queue engine_with_request \<noteq> []
   \<and> send_notification_message 7 200
         \<lparr> param_subscriptionId = 9, param_sequenceNumber = 3,
           param_notificationData = [DataChangeNotification 0],
           param_moreNotifications = False \<rparr> False engine_with_request
       = Some (engine_with_request\<lparr> publish_request_queue := [],
             callback_calls :=
               [(Callback 1, request_1\<lparr> received_time := Some 100, timeout_time := Some 1100 \<rparr>,
                 \<lparr> responseHeader_requestHandle = 42,
                   responseHeader_serviceResult = None,
                   subscriptionId = Some 9,
                   availableSequenceNumbers = Some [],
                   moreNotifications = Some False,
                   notificationMessage =
                     Some \<lparr> sequenceNumber = 3, publishTime = 200,
                            notificationData = [DataChangeNotification 0] \<rparr>,
                   response_results = Some [] \<rparr>)] \<rparr>)"
proof -
  let ?p = "\<lparr> param_subscriptionId = 9, param_sequenceNumber = 3,
             param_notificationData = [DataChangeNotification 0],
             param_moreNotifications = False \<rparr>"
  have h1: "getSubscriptionById (param_subscriptionId ?p) engine_with_request = None"
    by code_simp
  have h2: "publish_request_queue engine_with_request \<noteq> [] \<or> False"
    by code_simp
  have h3: "(7::nat) \<noteq> 0" by simp
  from send_notification_message_unknown_subscription[OF h1 h2 h3, of 200] h1
  show ?thesis
    by (simp add: engine_with_request_queue engine_with_request_calls
        delivered_response_def notification_response_def request_1_def)
qed

text \<open>
  Claim C9, as amended. \<open>send_keep_alive_response\<close> returns false, and does nothing, when
  the subscription id is not a key of the subscription map or when no publish request is
  pending. Otherwise it returns true, and the oldest pending request is answered, through
  \<open>send_notification_message\<close> without \<open>force\<close>, with a response whose notification
  message has the given sequence number and no notification data, and whose
  \<open>moreNotifications\<close> is false.
\<close>

theorem send_keep_alive_response_result:
  assumes "dh \<noteq> 0"
  shows "send_keep_alive_response dh now k n e =
           (case (getSubscriptionById k e, publish_request_queue e) of
              (Some s, pd # rest) \<Rightarrow>
                Some (True,
                  e\<lparr> publish_request_queue := rest,
                     callback_calls := callback_calls e
                       @ [(callback pd, request pd,
                           delivered_response pd
                             (notification_response dh now
                                \<lparr> param_subscriptionId = k, param_sequenceNumber = n,
                                  param_notificationData = [],
                                  param_moreNotifications = False \<rparr>
                                (getAvailableSequenceNumbers s)))] \<rparr>)
            | _ \<Rightarrow> Some (False, e))
         \<and> (\<forall>pd av. notificationMessage (delivered_response pd
                 (notification_response dh now
                    \<lparr> param_subscriptionId = k, param_sequenceNumber = n,
                      param_notificationData = [], param_moreNotifications = False \<rparr> av))
               = Some \<lparr> sequenceNumber = n, publishTime = now, notificationData = [] \<rparr>
             \<and> moreNotifications (delivered_response pd
                 (notification_response dh now
                    \<lparr> param_subscriptionId = k, param_sequenceNumber = n,
                      param_notificationData = [], param_moreNotifications = False \<rparr> av))
               = Some False)
         \<and> (getSubscriptionById k e \<noteq> None \<and> publish_request_queue e \<noteq> [] \<longrightarrow>
              map_option (Pair True)
                (send_notification_message dh now
                   \<lparr> param_subscriptionId = k, param_sequenceNumber = n,
                     param_notificationData = [], param_moreNotifications = False \<rparr> False e)
              = send_keep_alive_response dh now k n e)"
  using assms
  by (cases "getSubscriptionById k e"; cases "publish_request_queue e")
    (simp_all add: send_keep_alive_response_def send_notification_message_def assert_def
      pendingPublishRequestCount_def send_response_for_request_eq
      notification_response_def delivered_response_def)

text \<open>
  The claim as stated has no condition on the subscription id. In \<open>engine_with_request\<close>
  a request is pending and there is no subscription 2: the call returns false and
  delivers nothing.
\<close>

theorem send_keep_alive_response_counterexample:
  "publish_request_queue engine_with_request \<noteq> []
   \<and> send_keep_alive_response 7 200 2 5 engine_with_request = Some (False, engine_with_request)"
  by code_simp

theorem send_keep_alive_response_result_witness:
  "(7::nat) \<noteq> 0
   \<and> send_keep_alive_response 7 200 1 5 engine_with_request =
       Some (True,
         engine_with_request\<lparr> publish_request_queue := [],
           callback_calls :=
             [(Callback 1, request_1\<lparr> received_time := Some 100, timeout_time := Some 1100 \<rparr>,
               \<lparr> responseHeader_requestHandle = 42,
                 responseHeader_serviceResult = None,
                 subscriptionId = Some 1,
                 availableSequenceNumbers = Some [],
                 moreNotifications = Some False,
                 notificationMessage =
                   Some \<lparr> sequenceNumber = 5, publishTime = 200, notificationData = [] \<rparr>,
                 response_results = Some [] \<rparr>)] \<rparr>)"
proof -
  have h: "(7::nat) \<noteq> 0" by simp
  have s: "getSubscriptionById (Suc 0) engine_with_request
      = Some (subscription_1\<lparr> publishEngine := Some 0 \<rparr>)"
    by code_simp
  from send_keep_alive_response_result[OF h, of 200 1 5 engine_with_request] h
  show ?thesis
    by (simp add: s engine_with_request_queue engine_with_request_calls
        delivered_response_def notification_response_def request_1_def subscription_1_def)
qed

text \<open>
  Claim C1. In every state that a freshly constructed engine reaches by a sequence of
  public operations (with the subscriptions changing as they like in between), the queue
  of stashed responses is empty or the queue of pending requests is empty.
\<close>

theorem queues_never_both_nonempty:
  assumes "run dh self ops (constructor options) = Some e"
  shows "publish_response_queue e = [] \<or> publish_request_queue e = []"
proof -
  have "queues_exclusive (constructor options)"
    by (simp add: queues_exclusive_def constructor_def)
  from run_exclusive[OF assms this] show ?thesis
    by (simp add: queues_exclusive_def)
qed

text \<open>
  A subscription is added, a request arrives, a first notification answers it and a
  second, forced, one is stashed: the response queue is not empty, the request queue is.
\<close>

definition engine_with_stashed_response :: ServerSidePublishEngine where
  "engine_with_stashed_response =
     (case run 7 0
        [Add_subscription subscription_1,
         On_PublishRequest 100 request_1 (Some (Callback 1)),
         Send_notification 150
           \<lparr> param_subscriptionId = 1, param_sequenceNumber = 1,
             param_notificationData = [DataChangeNotification 0],
             param_moreNotifications = True \<rparr> False,
         Send_notification 160
           \<lparr> param_subscriptionId = 1, param_sequenceNumber = 2,
             param_notificationData = [DataChangeNotification 1],
             param_moreNotifications = False \<rparr> True]
        (constructor None) of
        Some e \<Rightarrow> e
      | None \<Rightarrow> constructor None)"

theorem queues_never_both_nonempty_witness:
  "run 7 0
     [Add_subscription subscription_1,
      On_PublishRequest 100 request_1 (Some (Callback 1)),
      Send_notification 150
        \<lparr> param_subscriptionId = 1, param_sequenceNumber = 1,
          param_notificationData = [DataChangeNotification 0],
          param_moreNotifications = True \<rparr> False,
      Send_notification 160
        \<lparr> param_subscriptionId = 1, param_sequenceNumber = 2,
          param_notificationData = [DataChangeNotification 1],
          param_moreNotifications = False \<rparr> True]
     (constructor None) = Some engine_with_stashed_response
   \<and> length (publish_response_queue engine_with_stashed_response) = 1
   \<and> publish_request_queue engine_with_stashed_response = []"
proof -
  have r: "run 7 0
     [Add_subscription subscription_1,
      On_PublishRequest 100 request_1 (Some (Callback 1)),
      Send_notification 150
        \<lparr> param_subscriptionId = 1, param_sequenceNumber = 1,
          param_notificationData = [DataChangeNotification 0],
          param_moreNotifications = True \<rparr> False,
      Send_notification 160
        \<lparr> param_subscriptionId = 1, param_sequenceNumber = 2,
          param_notificationData = [DataChangeNotification 1],
          param_moreNotifications = False \<rparr> True]
     (constructor None) = Some engine_with_stashed_response"
    by code_simp
  have n: "length (publish_response_queue engine_with_stashed_response) = 1"
    by code_simp
  from queues_never_both_nonempty[OF r] n show ?thesis
    using r by auto
qed

text \<open>
  Claim C3. After every return of \<open>on_PublishRequest\<close>, in a state the engine can reach,
  the request queue is no longer than \<open>maxPublishRequestInQueue\<close>. When the admission
  (the push and the two feeding steps, \<open>enqueue_and_feed\<close>) leaves the queue over the
  limit, it is over by exactly one, nothing was answered meanwhile, and the oldest request
  is taken off the queue and answered with a status-only \<open>BadTooManyPublishRequests\<close>
  response, while the new request stays, last in the queue.
\<close>

theorem admission_keeps_queue_bounded:
  assumes "run dh self ops (constructor options) = Some e"
    and "on_PublishRequest dh now r cb e = Some e'"
  shows "length (publish_request_queue e') \<le> maxPublishRequestInQueue e'
     \<and> (\<forall>e2. publish_response_queue e = [] \<and> \<not> isSessionClosed e \<and> subscriptionCount e \<noteq> 0
            \<and> enqueue_and_feed dh now (new_publishData r cb e) e = Some e2
            \<and> maxPublishRequestInQueue e2 < length (publish_request_queue e2)
          \<longrightarrow> (\<exists>oldest rest r'.
                 publish_request_queue e = oldest # rest
               \<and> prepare_timeout_info now r = Some r'
               \<and> length (publish_request_queue e2) = maxPublishRequestInQueue e2 + 1
               \<and> publish_request_queue e2
                   = oldest # rest @ [(new_publishData r cb e)\<lparr> request := r' \<rparr>]
               \<and> callback_calls e2 = callback_calls e
               \<and> e' = e2\<lparr> publish_request_queue :=
                            rest @ [(new_publishData r cb e)\<lparr> request := r' \<rparr>],
                          callback_calls := callback_calls e2
                            @ [(callback oldest, request oldest,
                                delivered_response oldest
                                  (status_response dh BadTooManyPublishRequests))] \<rparr>))"
proof -
  from run_bounded[OF assms(1) constructor_bounded] have b: "queue_bounded e" .
  from on_PublishRequest_bounded[OF assms(2) b]
  have first: "length (publish_request_queue e') \<le> maxPublishRequestInQueue e'"
    by (simp add: queue_bounded_def)
  have second: "\<exists>oldest rest r'.
                 publish_request_queue e = oldest # rest
               \<and> prepare_timeout_info now r = Some r'
               \<and> length (publish_request_queue e2) = maxPublishRequestInQueue e2 + 1
               \<and> publish_request_queue e2
                   = oldest # rest @ [(new_publishData r cb e)\<lparr> request := r' \<rparr>]
               \<and> callback_calls e2 = callback_calls e
               \<and> e' = e2\<lparr> publish_request_queue :=
                            rest @ [(new_publishData r cb e)\<lparr> request := r' \<rparr>],
                          callback_calls := callback_calls e2
                            @ [(callback oldest, request oldest,
                                delivered_response oldest
                                  (status_response dh BadTooManyPublishRequests))] \<rparr>"
    if c: "publish_response_queue e = []" "\<not> isSessionClosed e" "subscriptionCount e \<noteq> 0"
      and f: "enqueue_and_feed dh now (new_publishData r cb e) e = Some e2"
      and over: "maxPublishRequestInQueue e2 < length (publish_request_queue e2)"
    for e2
  proof -
    from on_PublishRequest_admission[OF c, of dh now r cb] f assms(2)
    have h: "handle_too_many_requests dh e2 = Some e'" by simp
    from enqueue_and_feed_over_limit[OF f b over] obtain oldest rest r' where
      o: "publish_request_queue e = oldest # rest"
        "prepare_timeout_info now (request (new_publishData r cb e)) = Some r'"
        "length (publish_request_queue e2) = maxPublishRequestInQueue e2 + 1"
        "publish_request_queue e2 = oldest # rest @ [(new_publishData r cb e)\<lparr> request := r' \<rparr>]"
        "callback_calls e2 = callback_calls e"
      by blast
    have rq: "request (new_publishData r cb e) = r"
      by (simp add: new_publishData_def Let_def)
    from handle_too_many_requests_Some[OF h] over o(4)
    have "e' = e2\<lparr> publish_request_queue :=
                            rest @ [(new_publishData r cb e)\<lparr> request := r' \<rparr>],
                          callback_calls := callback_calls e2
                            @ [(callback oldest, request oldest,
                                delivered_response oldest
                                  (status_response dh BadTooManyPublishRequests))] \<rparr>"
      by auto
    with o rq show ?thesis by auto
  qed
  from first second show ?thesis by blast
qed

text \<open>
  Scenario S2 of the specification: a limit of 2, an idle subscription, three requests.
  The third admission answers the first request with \<open>BadTooManyPublishRequests\<close> and
  leaves the second and the third in the queue.
\<close>

definition request_handle :: "nat \<Rightarrow> PublishRequest" where
  "request_handle h = request_1\<lparr> requestHeader_requestHandle := h \<rparr>"

definition engine_full :: ServerSidePublishEngine where
  "engine_full =
     (case run 7 0
        [Add_subscription subscription_1,
         On_PublishRequest 100 (request_handle 1) (Some (Callback 1)),
         On_PublishRequest 200 (request_handle 2) (Some (Callback 2))]
        (constructor (Some 2)) of
        Some e \<Rightarrow> e
      | None \<Rightarrow> constructor None)"

definition engine_after_eviction :: ServerSidePublishEngine where
  "engine_after_eviction =
     (case on_PublishRequest 7 300 (request_handle 3) (Some (Callback 3)) engine_full of
        Some e \<Rightarrow> e
      | None \<Rightarrow> constructor None)"

definition engine_over_limit :: ServerSidePublishEngine where
  "engine_over_limit =
     (case enqueue_and_feed 7 300
             (new_publishData (request_handle 3) (Some (Callback 3)) engine_full) engine_full of
        Some e \<Rightarrow> e
      | None \<Rightarrow> constructor None)"

theorem admission_keeps_queue_bounded_witness:
  "run 7 0
     [Add_subscription subscription_1,
      On_PublishRequest 100 (request_handle 1) (Some (Callback 1)),
      On_PublishRequest 200 (request_handle 2) (Some (Callback 2))]
     (constructor (Some 2)) = Some engine_full
   \<and> on_PublishRequest 7 300 (request_handle 3) (Some (Callback 3)) engine_full
       = Some engine_after_eviction
   \<and> enqueue_and_feed 7 300
         (new_publishData (request_handle 3) (Some (Callback 3)) engine_full) engine_full
       = Some engine_over_limit
   \<and> maxPublishRequestInQueue engine_over_limit = 2
   \<and> map callback (publish_request_queue engine_over_limit)
       = [Callback 1, Callback 2, Callback 3]
   \<and> length (publish_request_queue engine_after_eviction)
       \<le> maxPublishRequestInQueue engine_after_eviction
   \<and> map callback (publish_request_queue engine_after_eviction) = [Callback 2, Callback 3]
   \<and> map (\<lambda>c. (fst c, responseHeader_serviceResult (snd (snd c))))
         (callback_calls engine_after_eviction)
       = [(Callback 1, Some BadTooManyPublishRequests)]"
proof -
  have r: "run 7 0
     [Add_subscription subscription_1,
      On_PublishRequest 100 (request_handle 1) (Some (Callback 1)),
      On_PublishRequest 200 (request_handle 2) (Some (Callback 2))]
     (constructor (Some 2)) = Some engine_full"
    by code_simp
  have c: "on_PublishRequest 7 300 (request_handle 3) (Some (Callback 3)) engine_full
       = Some engine_after_eviction"
    by code_simp
  have f: "enqueue_and_feed 7 300
         (new_publishData (request_handle 3) (Some (Callback 3)) engine_full) engine_full
       = Some engine_over_limit"
    by code_simp
  have m: "maxPublishRequestInQueue engine_over_limit = 2"
    by code_simp
  have o: "map callback (publish_request_queue engine_over_limit)
       = [Callback 1, Callback 2, Callback 3]"
    by code_simp
  have pre: "publish_response_queue engine_full = [] \<and> \<not> isSessionClosed engine_full
      \<and> subscriptionCount engine_full \<noteq> 0"
    by code_simp
  have over: "maxPublishRequestInQueue engine_over_limit
      < length (publish_request_queue engine_over_limit)"
    by code_simp
  have cc: "callback_calls engine_full = []"
    by code_simp
  have qf: "map callback (publish_request_queue engine_full) = [Callback 1, Callback 2]"
    by code_simp
  from admission_keeps_queue_bounded[OF r c]
  have b: "length (publish_request_queue engine_after_eviction)
       \<le> maxPublishRequestInQueue engine_after_eviction"
    and "\<exists>oldest rest r'.
           publish_request_queue engine_full = oldest # rest
         \<and> prepare_timeout_info 300 (request_handle 3) = Some r'
         \<and> length (publish_request_queue engine_over_limit)
             = maxPublishRequestInQueue engine_over_limit + 1
         \<and> publish_request_queue engine_over_limit
             = oldest # rest
               @ [(new_publishData (request_handle 3) (Some (Callback 3)) engine_full)
                    \<lparr> request := r' \<rparr>]
         \<and> callback_calls engine_over_limit = callback_calls engine_full
         \<and> engine_after_eviction = engine_over_limit
             \<lparr> publish_request_queue :=
                 rest @ [(new_publishData (request_handle 3) (Some (Callback 3)) engine_full)
                           \<lparr> request := r' \<rparr>],
               callback_calls := callback_calls engine_over_limit
                 @ [(callback oldest, request oldest,
                     delivered_response oldest (status_response 7 BadTooManyPublishRequests))] \<rparr>"
    using pre f over by blast+
  then obtain oldest rest r' where
    q: "publish_request_queue engine_full = oldest # rest"
    and q2: "publish_request_queue engine_over_limit
        = oldest # rest
          @ [(new_publishData (request_handle 3) (Some (Callback 3)) engine_full)
               \<lparr> request := r' \<rparr>]"
    and cl: "callback_calls engine_over_limit = callback_calls engine_full"
    and e': "engine_after_eviction = engine_over_limit
             \<lparr> publish_request_queue :=
                 rest @ [(new_publishData (request_handle 3) (Some (Callback 3)) engine_full)
                           \<lparr> request := r' \<rparr>],
               callback_calls := callback_calls engine_over_limit
                 @ [(callback oldest, request oldest,
                     delivered_response oldest (status_response 7 BadTooManyPublishRequests))] \<rparr>"
    by blast
  from q2 o have tl: "map callback (rest
      @ [(new_publishData (request_handle 3) (Some (Callback 3)) engine_full)
           \<lparr> request := r' \<rparr>]) = [Callback 2, Callback 3]"
    and hd: "callback oldest = Callback 1"
    by simp_all
  have q': "map callback (publish_request_queue engine_after_eviction) = [Callback 2, Callback 3]"
    by (subst e') (simp add: tl del: map_append)
  have l: "map (\<lambda>c. (fst c, responseHeader_serviceResult (snd (snd c))))
         (callback_calls engine_after_eviction)
       = [(Callback 1, Some BadTooManyPublishRequests)]"
    by (subst e') (simp add: cl cc hd delivered_response_def status_response_def)
  from r c f m o b q' l show ?thesis by blast
qed

text \<open>
  Claim C2, as amended. Over any sequence of public operations that return, every request
  handed to \<open>on_PublishRequest\<close> is accounted for exactly once: its callback has been
  called once (with a notification response or a status-only response), or it is still
  pending in the request queue, or it was pending when \<open>shutdown\<close> emptied the queue, in
  which case its callback is not called. No callback is called twice, and without a
  \<open>shutdown\<close> nothing is discarded.
\<close>

theorem accepted_requests_accounted_once:
  assumes "run dh self ops (constructor options) = Some e"
  shows "mset (accepted ops)
           = mset (map fst (callback_calls e))
             + mset (map callback (publish_request_queue e))
             + mset (discarded dh self ops (constructor options))
       \<and> list_all (\<lambda>c. notification_reply (snd (snd c)) \<or> status_reply (snd (snd c)))
           (callback_calls e)
       \<and> (list_all (\<lambda>op. op \<noteq> Shutdown) ops
            \<longrightarrow> discarded dh self ops (constructor options) = [])"
proof -
  have "ledger (constructor options) = {#}"
    by (simp add: ledger_def constructor_def)
  with run_ledger[OF assms] have "mset (accepted ops)
           = mset (map fst (callback_calls e))
             + mset (map callback (publish_request_queue e))
             + mset (discarded dh self ops (constructor options))"
    by (simp add: ledger_def ac_simps)
  moreover have "replies_typed (constructor options)"
    by (simp add: replies_typed_def constructor_def)
  from run_typed[OF assms this]
  have "list_all (\<lambda>c. notification_reply (snd (snd c)) \<or> status_reply (snd (snd c)))
           (callback_calls e)"
    by (simp add: replies_typed_def)
  ultimately show ?thesis
    by (simp add: discarded_without_shutdown)
qed

text \<open>
  The claim as stated includes \<open>shutdown\<close>, which empties the request queue and calls
  no callback. A request is accepted and waits; the subscription is detached (as a
  transfer does); \<open>shutdown\<close> then discards the request: the queue is empty and no
  callback was called.
\<close>

definition engine_after_shutdown :: ServerSidePublishEngine where
  "engine_after_shutdown =
     (case run 7 0
        [Add_subscription subscription_1,
         On_PublishRequest 100 request_1 (Some (Callback 1)),
         Detach_subscription (subscription_1\<lparr> publishEngine := Some 0 \<rparr>),
         Shutdown]
        (constructor None) of
        Some e \<Rightarrow> e
      | None \<Rightarrow> constructor None)"

theorem accepted_request_discarded_counterexample:
  "run 7 0
     [Add_subscription subscription_1,
      On_PublishRequest 100 request_1 (Some (Callback 1)),
      Detach_subscription (subscription_1\<lparr> publishEngine := Some 0 \<rparr>)]
     (constructor None) = Some (engine_with_request\<lparr> subscriptions := [] \<rparr>)
   \<and> map callback (publish_request_queue (engine_with_request\<lparr> subscriptions := [] \<rparr>))
       = [Callback 1]
   \<and> shutdown (engine_with_request\<lparr> subscriptions := [] \<rparr>) = Some engine_after_shutdown
   \<and> publish_request_queue engine_after_shutdown = []
   \<and> callback_calls engine_after_shutdown = []"
  by code_simp

text \<open>
  Three requests: the first is answered by a notification, the second times out, the
  third is pending at \<open>shutdown\<close>.
\<close>

definition engine_settled :: ServerSidePublishEngine where
  "engine_settled =
     (case run 7 0
        [Add_subscription subscription_1,
         On_PublishRequest 100 (request_handle 1) (Some (Callback 1)),
         On_PublishRequest 110 (request_handle 2) (Some (Callback 2)),
         On_PublishRequest 120 (request_handle 3) (Some (Callback 3)),
         Send_notification 150
           \<lparr> param_subscriptionId = 1, param_sequenceNumber = 1,
             param_notificationData = [DataChangeNotification 0],
             param_moreNotifications = False \<rparr> False,
         On_tick 1115,
         Detach_subscription (subscription_1\<lparr> publishEngine := Some 0 \<rparr>),
         Shutdown]
        (constructor None) of
        Some e \<Rightarrow> e
      | None \<Rightarrow> constructor None)"

theorem accepted_requests_accounted_once_witness:
  "run 7 0
     [Add_subscription subscription_1,
      On_PublishRequest 100 (request_handle 1) (Some (Callback 1)),
      On_PublishRequest 110 (request_handle 2) (Some (Callback 2)),
      On_PublishRequest 120 (request_handle 3) (Some (Callback 3)),
      Send_notification 150
        \<lparr> param_subscriptionId = 1, param_sequenceNumber = 1,
          param_notificationData = [DataChangeNotification 0],
          param_moreNotifications = False \<rparr> False,
      On_tick 1115,
      Detach_subscription (subscription_1\<lparr> publishEngine := Some 0 \<rparr>),
      Shutdown]
     (constructor None) = Some engine_settled
   \<and> map fst (callback_calls engine_settled) = [Callback 1, Callback 2]
   \<and> publish_request_queue engine_settled = []
   \<and> mset (discarded 7 0
        [Add_subscription subscription_1,
         On_PublishRequest 100 (request_handle 1) (Some (Callback 1)),
         On_PublishRequest 110 (request_handle 2) (Some (Callback 2)),
         On_PublishRequest 120 (request_handle 3) (Some (Callback 3)),
         Send_notification 150
           \<lparr> param_subscriptionId = 1, param_sequenceNumber = 1,
             param_notificationData = [DataChangeNotification 0],
             param_moreNotifications = False \<rparr> False,
         On_tick 1115,
         Detach_subscription (subscription_1\<lparr> publishEngine := Some 0 \<rparr>),
         Shutdown]
        (constructor None)) = {# Callback 3 #}
   \<and> list_all (\<lambda>c. notification_reply (snd (snd c)) \<or> status_reply (snd (snd c)))
       (callback_calls engine_settled)"
proof -
  let ?ops = "[Add_subscription subscription_1,
      On_PublishRequest 100 (request_handle 1) (Some (Callback 1)),
      On_PublishRequest 110 (request_handle 2) (Some (Callback 2)),
      On_PublishRequest 120 (request_handle 3) (Some (Callback 3)),
      Send_notification 150
        \<lparr> param_subscriptionId = 1, param_sequenceNumber = 1,
          param_notificationData = [DataChangeNotification 0],
          param_moreNotifications = False \<rparr> False,
      On_tick 1115,
      Detach_subscription (subscription_1\<lparr> publishEngine := Some 0 \<rparr>),
      Shutdown]"
  have r: "run 7 0 ?ops (constructor None) = Some engine_settled"
    by code_simp
  have c: "map fst (callback_calls engine_settled) = [Callback 1, Callback 2]"
    by code_simp
  have q: "publish_request_queue engine_settled = []"
    by code_simp
  have a: "accepted ?ops = [Callback 1, Callback 2, Callback 3]"
    by simp
  from accepted_requests_accounted_once[OF r] a c q
  have "mset (discarded 7 0 ?ops (constructor None)) = {# Callback 3 #}"
    and "list_all (\<lambda>c. notification_reply (snd (snd c)) \<or> status_reply (snd (snd c)))
       (callback_calls engine_settled)"
    by simp_all
  with r c q show ?thesis by blast
qed

text \<open>
  Claim C7. \<open>onSessionClose\<close> calls the callback of every pending request with a
  status-only \<open>BadSessionClosed\<close> response, leaves the request queue empty and sets
  \<open>isSessionClosed\<close>. After it, whatever operations follow, the session stays closed and
  no request is pending; a request that arrives then and finds no stashed response is
  answered at once with \<open>BadSessionClosed\<close> and nothing is enqueued, and one that finds
  a stashed response gets that response instead. (The engine is one a fresh engine
  reaches, and \<open>dh\<close>, the request handle of a fresh response, is not 0.)
\<close>

theorem onSessionClose_then_BadSessionClosed:
  assumes "dh \<noteq> 0" and "run dh self ops0 (constructor options) = Some e"
  shows "onSessionClose dh e =
           Some (e\<lparr> isSessionClosed := True,
                   callback_calls := callback_calls e
                     @ map (\<lambda>pd. (callback pd, request pd,
                                   delivered_response pd (status_response dh BadSessionClosed)))
                         (publish_request_queue e),
                   publish_request_queue := [] \<rparr>)
       \<and> (\<forall>e1 ops e2 now r cb.
             onSessionClose dh e = Some e1 \<and> run dh self ops e1 = Some e2 \<longrightarrow>
               isSessionClosed e2 \<and> publish_request_queue e2 = []
               \<and> on_PublishRequest dh now r cb e2 =
                   Some (case publish_response_queue e2 of
                           [] \<Rightarrow> e2\<lparr> callback_calls := callback_calls e2
                                     @ [(callback (new_publishData r cb e2),
                                         request (new_publishData r cb e2),
                                         delivered_response (new_publishData r cb e2)
                                           (status_response dh BadSessionClosed))] \<rparr>
                         | resp # rest \<Rightarrow>
                             e2\<lparr> publish_response_queue := rest,
                                 callback_calls := callback_calls e2
                                   @ [(callback (new_publishData r cb e2),
                                       request (new_publishData r cb e2),
                                       delivered_response (new_publishData r cb e2) resp)] \<rparr>))"
proof -
  have "session_invariant dh False (constructor options)"
    by (simp add: session_invariant_def constructor_def)
  from run_session[OF assms(2) this] have i: "session_invariant dh False e" .
  have c: "onSessionClose dh e =
           Some (e\<lparr> isSessionClosed := True,
                   callback_calls := callback_calls e
                     @ map (\<lambda>pd. (callback pd, request pd,
                                   delivered_response pd (status_response dh BadSessionClosed)))
                         (publish_request_queue e),
                   publish_request_queue := [] \<rparr>)"
    using assms(1) by (simp add: onSessionClose_def cancelPendingPublishRequest_with_eq)
  have after: "isSessionClosed e2 \<and> publish_request_queue e2 = []
               \<and> on_PublishRequest dh now r cb e2 =
                   Some (case publish_response_queue e2 of
                           [] \<Rightarrow> e2\<lparr> callback_calls := callback_calls e2
                                     @ [(callback (new_publishData r cb e2),
                                         request (new_publishData r cb e2),
                                         delivered_response (new_publishData r cb e2)
                                           (status_response dh BadSessionClosed))] \<rparr>
                         | resp # rest \<Rightarrow>
                             e2\<lparr> publish_response_queue := rest,
                                 callback_calls := callback_calls e2
                                   @ [(callback (new_publishData r cb e2),
                                       request (new_publishData r cb e2),
                                       delivered_response (new_publishData r cb e2) resp)] \<rparr>)"
    if "onSessionClose dh e = Some e1" and r: "run dh self ops e1 = Some e2"
    for e1 ops e2 now r cb
  proof -
    from that(1) c i have "session_invariant dh True e1"
      by (auto simp: session_invariant_def)
    from run_session[OF r this] have i2: "session_invariant dh True e2" .
    from on_PublishRequest_session_closed[OF assms(1) i2] i2 show ?thesis
      by (simp add: session_invariant_def)
  qed
  from c after show ?thesis by blast
qed

text \<open>
  The session of \<open>engine_with_request\<close> is closed: the pending request gets
  \<open>BadSessionClosed\<close>. A request that arrives next gets \<open>BadSessionClosed\<close> too; if a
  forced notification was stashed before it, it gets that notification (sequence
  number 8).
\<close>

definition engine_closed :: ServerSidePublishEngine where
  "engine_closed =
     (case onSessionClose 7 engine_with_request of
        Some e \<Rightarrow> e
      | None \<Rightarrow> constructor None)"

definition engine_closed_with_stash :: ServerSidePublishEngine where
  "engine_closed_with_stash =
     (case run 7 0
        [Send_notification 300
           \<lparr> param_subscriptionId = 1, param_sequenceNumber = 8,
             param_notificationData = [DataChangeNotification 0],
             param_moreNotifications = False \<rparr> True]
        engine_closed of
        Some e \<Rightarrow> e
      | None \<Rightarrow> constructor None)"

theorem onSessionClose_then_BadSessionClosed_witness:
  "(7::nat) \<noteq> 0
   \<and> run 7 0 [Add_subscription subscription_1,
               On_PublishRequest 100 request_1 (Some (Callback 1))] (constructor None)
       = Some engine_with_request
   \<and> onSessionClose 7 engine_with_request = Some engine_closed
   \<and> isSessionClosed engine_closed
   \<and> publish_request_queue engine_closed = []
   \<and> map (\<lambda>c. (fst c, responseHeader_serviceResult (snd (snd c)))) (callback_calls engine_closed)
       = [(Callback 1, Some BadSessionClosed)]
   \<and> run 7 0 [] engine_closed = Some engine_closed
   \<and> map_option (\<lambda>e. (publish_request_queue e,
          map (\<lambda>c. (fst c, responseHeader_serviceResult (snd (snd c)))) (callback_calls e)))
         (on_PublishRequest 7 400 (request_handle 5) (Some (Callback 5)) engine_closed)
       = Some ([], [(Callback 1, Some BadSessionClosed), (Callback 5, Some BadSessionClosed)])
   \<and> run 7 0
        [Send_notification 300
           \<lparr> param_subscriptionId = 1, param_sequenceNumber = 8,
             param_notificationData = [DataChangeNotification 0],
             param_moreNotifications = False \<rparr> True]
        engine_closed = Some engine_closed_with_stash
   \<and> length (publish_response_queue engine_closed_with_stash) = 1
   \<and> map_option (\<lambda>e. (publish_request_queue e, publish_response_queue e,
          map (\<lambda>c. (fst c, responseHeader_serviceResult (snd (snd c)),
                     map_option sequenceNumber (notificationMessage (snd (snd c)))))
            (callback_calls e)))
         (on_PublishRequest 7 400 (request_handle 5) (Some (Callback 5)) engine_closed_with_stash)
       = Some ([], [], [(Callback 1, Some BadSessionClosed, None), (Callback 5, None, Some 8)])"
proof -
  have h: "(7::nat) \<noteq> 0" by simp
  have r0: "run 7 0 [Add_subscription subscription_1,
               On_PublishRequest 100 request_1 (Some (Callback 1))] (constructor None)
       = Some engine_with_request"
    by code_simp
  have c: "onSessionClose 7 engine_with_request = Some engine_closed"
    by code_simp
  have r1: "run 7 0 [] engine_closed = Some engine_closed"
    by (simp add: run_def)
  have r2: "run 7 0
        [Send_notification 300
           \<lparr> param_subscriptionId = 1, param_sequenceNumber = 8,
             param_notificationData = [DataChangeNotification 0],
             param_moreNotifications = False \<rparr> True]
        engine_closed = Some engine_closed_with_stash"
    by code_simp
  have l: "map (\<lambda>c. (fst c, responseHeader_serviceResult (snd (snd c)))) (callback_calls engine_closed)
       = [(Callback 1, Some BadSessionClosed)]"
    by code_simp
  have p1: "publish_response_queue engine_closed = []"
    by code_simp
  have ll: "map (\<lambda>c. (fst c, responseHeader_serviceResult (snd (snd c)),
                     map_option sequenceNumber (notificationMessage (snd (snd c)))))
            (callback_calls engine_closed) = [(Callback 1, Some BadSessionClosed, None)]"
    by code_simp
  have p2: "publish_response_queue engine_closed_with_stash =
      [notification_response 7 300
         \<lparr> param_subscriptionId = 1, param_sequenceNumber = 8,
           param_notificationData = [DataChangeNotification 0],
           param_moreNotifications = False \<rparr> []]"
    by code_simp
  have l2: "callback_calls engine_closed_with_stash = callback_calls engine_closed"
    by code_simp
  have cb: "callback (new_publishData (request_handle 5) (Some (Callback 5)) e) = Callback 5" for e
    by (simp add: new_publishData_def Let_def)
  note t = onSessionClose_then_BadSessionClosed[OF h r0, THEN conjunct2, rule_format]
  from t[of engine_closed "[]" engine_closed 400 "request_handle 5" "Some (Callback 5)"] c r1
  have a1: "isSessionClosed engine_closed" "publish_request_queue engine_closed = []"
    and a2: "map_option (\<lambda>e. (publish_request_queue e,
          map (\<lambda>c. (fst c, responseHeader_serviceResult (snd (snd c)))) (callback_calls e)))
         (on_PublishRequest 7 400 (request_handle 5) (Some (Callback 5)) engine_closed)
       = Some ([], [(Callback 1, Some BadSessionClosed), (Callback 5, Some BadSessionClosed)])"
    by (simp_all add: p1 l cb delivered_response_def status_response_def)
  from t[of engine_closed _ engine_closed_with_stash 400 "request_handle 5" "Some (Callback 5)"]
    c r2
  have a3: "map_option (\<lambda>e. (publish_request_queue e, publish_response_queue e,
          map (\<lambda>c. (fst c, responseHeader_serviceResult (snd (snd c)),
                     map_option sequenceNumber (notificationMessage (snd (snd c)))))
            (callback_calls e)))
         (on_PublishRequest 7 400 (request_handle 5) (Some (Callback 5)) engine_closed_with_stash)
       = Some ([], [], [(Callback 1, Some BadSessionClosed, None), (Callback 5, None, Some 8)])"
    by (simp add: p2 l2 ll cb delivered_response_def notification_response_def)
  have n: "length (publish_response_queue engine_closed_with_stash) = 1"
    by (simp add: p2)
  from h r0 c a1 l r1 a2 r2 n a3 show ?thesis by blast
qed

text \<open>
  Claim C6, as amended. \<open>on_PublishRequest\<close> is called on an engine with no
  subscription, an open session and no stashed response. If the head of the closed list
  has pending notifications and the call returns, the new record was enqueued and the
  closed-drain step consumed exactly one record, the oldest of the queue, which is the
  new record when no request was pending before; so the queue is as long after the call
  as before it. The call returns when the closed subscription sends one notification.
  Otherwise the request is answered at once with a status-only \<open>BadNoSubscription\<close>
  response and the queue is unchanged. (\<open>dh\<close>, the request handle of a fresh response,
  is not 0.)
\<close>

theorem publish_request_without_subscription:
  assumes "subscriptionCount e = 0" and "\<not> isSessionClosed e"
    and "publish_response_queue e = []" and "dh \<noteq> 0"
  shows "(\<forall>s cs e'.
            closed_subscriptions e = s # cs \<and> hasPendingNotifications s
            \<and> on_PublishRequest dh now r cb e = Some e' \<longrightarrow>
              (\<exists>x rest resp.
                  publish_request_queue e @ [new_publishData r cb e] = x # rest
                \<and> publish_request_queue e' = rest
                \<and> notification_reply resp
                \<and> callback_calls e' = callback_calls e @ [(callback x, request x, resp)]
                \<and> closed_subscriptions e' = cs
                \<and> subscription_calls e' = subscription_calls e
                     @ [(id_sub s, Publish_pending_notifications)]))
       \<and> (\<forall>s cs param force.
            closed_subscriptions e = s # cs \<and> hasPendingNotifications s
            \<and> publish_pending_notifications s = [Send_notification_message param force] \<longrightarrow>
              on_PublishRequest dh now r cb e \<noteq> None)
       \<and> ((\<forall>s cs. closed_subscriptions e = s # cs \<longrightarrow> \<not> hasPendingNotifications s) \<longrightarrow>
            on_PublishRequest dh now r cb e =
              Some (e\<lparr> callback_calls := callback_calls e
                       @ [(callback (new_publishData r cb e), request (new_publishData r cb e),
                           delivered_response (new_publishData r cb e)
                             (status_response dh BadNoSubscription))] \<rparr>))"
proof (intro conjI allI impI)
  fix s cs e'
  assume "closed_subscriptions e = s # cs \<and> hasPendingNotifications s
            \<and> on_PublishRequest dh now r cb e = Some e'"
  then show "\<exists>x rest resp.
                  publish_request_queue e @ [new_publishData r cb e] = x # rest
                \<and> publish_request_queue e' = rest
                \<and> notification_reply resp
                \<and> callback_calls e' = callback_calls e @ [(callback x, request x, resp)]
                \<and> closed_subscriptions e' = cs
                \<and> subscription_calls e' = subscription_calls e
                     @ [(id_sub s, Publish_pending_notifications)]"
    using closed_drain_result[OF assms(1-3), of s cs dh now r cb e'] by blast
next
  fix s cs param force
  assume "closed_subscriptions e = s # cs \<and> hasPendingNotifications s
            \<and> publish_pending_notifications s = [Send_notification_message param force]"
  then show "on_PublishRequest dh now r cb e \<noteq> None"
    using closed_drain_returns[OF assms(1-3) _ _ _ assms(4), of s cs param force now r cb]
    by blast
next
  assume "\<forall>s cs. closed_subscriptions e = s # cs \<longrightarrow> \<not> hasPendingNotifications s"
  then have "closed_subscriptions e = [] \<or> \<not> hasPendingNotifications (hd (closed_subscriptions e))"
    by (cases "closed_subscriptions e") auto
  from no_subscription_reply[OF assms(1-3) this assms(4)]
  show "on_PublishRequest dh now r cb e =
              Some (e\<lparr> callback_calls := callback_calls e
                       @ [(callback (new_publishData r cb e), request (new_publishData r cb e),
                           delivered_response (new_publishData r cb e)
                             (status_response dh BadNoSubscription))] \<rparr>)" .
qed

text \<open>
  The claim as stated has the closed-drain step consume the record just enqueued. A
  request waits for subscription 1; subscription 2 is closed with pending notifications;
  subscription 1 is detached. The next request is enqueued behind the first, and the
  closed subscription's notification answers the first: the new request stays queued.
\<close>

definition subscription_2 :: Subscription where
  "subscription_2 =
     subscription_1\<lparr> id_sub := 2, hasPendingNotifications := True,
       publish_pending_notifications :=
         [Send_notification_message
            \<lparr> param_subscriptionId = 2, param_sequenceNumber = 4,
              param_notificationData = [DataChangeNotification 0],
              param_moreNotifications = True \<rparr> False] \<rparr>"

definition engine_draining :: ServerSidePublishEngine where
  "engine_draining =
     (case run 7 0
        [Add_subscription subscription_2,
         On_close_subscription 50 (subscription_2\<lparr> publishEngine := Some 0 \<rparr>)]
        (constructor None) of
        Some e \<Rightarrow> e
      | None \<Rightarrow> constructor None)"

definition engine_draining_with_request :: ServerSidePublishEngine where
  "engine_draining_with_request =
     (case run 7 0
        [Add_subscription subscription_1,
         Add_subscription subscription_2,
         On_PublishRequest 100 (request_handle 1) (Some (Callback 1)),
         On_close_subscription 150 (subscription_2\<lparr> publishEngine := Some 0 \<rparr>),
         Detach_subscription (subscription_1\<lparr> publishEngine := Some 0 \<rparr>)]
        (constructor None) of
        Some e \<Rightarrow> e
      | None \<Rightarrow> constructor None)"

theorem closed_drain_consumes_oldest_counterexample:
  "run 7 0
     [Add_subscription subscription_1,
      Add_subscription subscription_2,
      On_PublishRequest 100 (request_handle 1) (Some (Callback 1)),
      On_close_subscription 150 (subscription_2\<lparr> publishEngine := Some 0 \<rparr>),
      Detach_subscription (subscription_1\<lparr> publishEngine := Some 0 \<rparr>)]
     (constructor None) = Some engine_draining_with_request
   \<and> subscriptionCount engine_draining_with_request = 0
   \<and> \<not> isSessionClosed engine_draining_with_request
   \<and> publish_response_queue engine_draining_with_request = []
   \<and> map hasPendingNotifications (closed_subscriptions engine_draining_with_request) = [True]
   \<and> map callback (publish_request_queue engine_draining_with_request) = [Callback 1]
   \<and> map_option (\<lambda>e. (map callback (publish_request_queue e), map fst (callback_calls e)))
         (on_PublishRequest 7 200 (request_handle 2) (Some (Callback 2))
            engine_draining_with_request)
       = Some ([Callback 2], [Callback 1])"
  by code_simp

text \<open>
  With no request pending, the closed subscription's notification answers the new
  request itself; and an engine with nothing closed replies \<open>BadNoSubscription\<close>
  (scenario S3 of the specification).
\<close>

theorem publish_request_without_subscription_witness:
  "subscriptionCount engine_draining = 0
   \<and> \<not> isSessionClosed engine_draining
   \<and> publish_response_queue engine_draining = []
   \<and> (7::nat) \<noteq> 0
   \<and> closed_subscriptions engine_draining = [subscription_2\<lparr> publishEngine := Some 0 \<rparr>]
   \<and> hasPendingNotifications (subscription_2\<lparr> publishEngine := Some 0 \<rparr>)
   \<and> publish_request_queue engine_draining = []
   \<and> map_option (\<lambda>e. (publish_request_queue e, map fst (callback_calls e),
                         closed_subscriptions e, subscription_calls e))
         (on_PublishRequest 7 200 (request_handle 2) (Some (Callback 2)) engine_draining)
       = Some ([], [Callback 2], [], [(2, Publish_pending_notifications)])
   \<and> on_PublishRequest 7 200 (request_handle 7) (Some (Callback 7)) (constructor None)
       = Some ((constructor None)\<lparr> callback_calls :=
           [(Callback 7, request_handle 7,
             \<lparr> responseHeader_requestHandle = 7,
               responseHeader_serviceResult = Some BadNoSubscription,
               subscriptionId = None,
               availableSequenceNumbers = None,
               moreNotifications = None,
               notificationMessage = None,
               response_results = Some [] \<rparr>)] \<rparr>)"
proof -
  let ?s = "subscription_2\<lparr> publishEngine := Some 0 \<rparr>"
  have h1: "subscriptionCount engine_draining = 0" by code_simp
  have h2: "\<not> isSessionClosed engine_draining" by code_simp
  have h3: "publish_response_queue engine_draining = []" by code_simp
  have h4: "(7::nat) \<noteq> 0" by simp
  have c: "closed_subscriptions engine_draining = [?s]" by code_simp
  have p: "hasPendingNotifications ?s" by code_simp
  have q: "publish_request_queue engine_draining = []" by code_simp
  have l: "callback_calls engine_draining = []" by code_simp
  have sc: "subscription_calls engine_draining = []" by code_simp
  have script: "publish_pending_notifications ?s =
      [Send_notification_message
         \<lparr> param_subscriptionId = 2, param_sequenceNumber = 4,
           param_notificationData = [DataChangeNotification 0],
           param_moreNotifications = True \<rparr> False]"
    by (simp add: subscription_2_def)
  have i: "id_sub ?s = 2" by (simp add: subscription_2_def)
  have cb: "callback (new_publishData (request_handle 2) (Some (Callback 2)) e) = Callback 2" for e
    by (simp add: new_publishData_def Let_def)
  note t = publish_request_without_subscription[OF h1 h2 h3 h4,
      of 200 "request_handle 2" "Some (Callback 2)"]
  from t c p script have "on_PublishRequest 7 200 (request_handle 2) (Some (Callback 2))
      engine_draining \<noteq> None"
    by blast
  then obtain e' where e': "on_PublishRequest 7 200 (request_handle 2) (Some (Callback 2))
      engine_draining = Some e'"
    by blast
  with t c p obtain x rest resp where
    "publish_request_queue engine_draining
        @ [new_publishData (request_handle 2) (Some (Callback 2)) engine_draining] = x # rest"
    "publish_request_queue e' = rest"
    "callback_calls e' = callback_calls engine_draining @ [(callback x, request x, resp)]"
    "closed_subscriptions e' = []"
    "subscription_calls e' = subscription_calls engine_draining
       @ [(id_sub ?s, Publish_pending_notifications)]"
    by blast
  with q l sc i cb have a: "map_option (\<lambda>e. (publish_request_queue e, map fst (callback_calls e),
                         closed_subscriptions e, subscription_calls e))
         (on_PublishRequest 7 200 (request_handle 2) (Some (Callback 2)) engine_draining)
       = Some ([], [Callback 2], [], [(2, Publish_pending_notifications)])"
    unfolding e' by auto
  have n1: "subscriptionCount (constructor None) = 0" by code_simp
  have n2: "\<not> isSessionClosed (constructor None)" by code_simp
  have n3: "publish_response_queue (constructor None) = []" by code_simp
  have n4: "closed_subscriptions (constructor None) = []" by code_simp
  have n5: "callback_calls (constructor None) = []" by code_simp
  from publish_request_without_subscription[OF n1 n2 n3 h4,
      of 200 "request_handle 7" "Some (Callback 7)"] n4 n5
  have b: "on_PublishRequest 7 200 (request_handle 7) (Some (Callback 7)) (constructor None)
       = Some ((constructor None)\<lparr> callback_calls :=
           [(Callback 7, request_handle 7,
             \<lparr> responseHeader_requestHandle = 7,
               responseHeader_serviceResult = Some BadNoSubscription,
               subscriptionId = None,
               availableSequenceNumbers = None,
               moreNotifications = None,
               notificationMessage = None,
               response_results = Some [] \<rparr>)] \<rparr>)"
    by (simp add: new_publishData_def Let_def delivered_response_def status_response_def
        process_subscriptionAcknowledgements_def request_handle_def request_1_def)
  from h1 h2 h3 h4 c p q a b show ?thesis by blast
qed






text \<open>
  Claim C8. A subscription \<open>s\<close> is attached to the engine \<open>E1\<close>, and \<open>E2\<close> is another
  engine. After \<open>transferSubscription\<close> returns: \<open>notifyTransfer\<close> was invoked first,
  and the \<open>GoodSubscriptionTransferred\<close> status change went to \<open>E1\<close> (delivered to its
  oldest pending request, or stashed); \<open>s\<close> is no longer in the subscription map of
  \<open>E1\<close> and is in that of \<open>E2\<close>, with \<open>E2\<close> as its \<open>publishEngine\<close>;
  \<open>resetLifeTimeCounter\<close> was invoked, and \<open>resendInitialValues\<close> once if
  \<open>sendInitialValues\<close> is set and not at all otherwise; no other engine changed. The
  call returns when \<open>E2\<close> holds no subscription of that id (and \<open>dh\<close> is not 0).
\<close>

theorem transferSubscription_moves_subscription:
  assumes "publishEngine s = Some E1"
    and "map_of (subscriptions (engines w E1)) (id_sub s) = Some s"
    and "E2 \<noteq> E1"
  shows "(\<forall>s' w'. transferSubscription dh now s E2 sendInitialValues w = Some (s', w') \<longrightarrow>
            s' = s\<lparr> publishEngine := Some E2 \<rparr>
          \<and> method_calls w' = method_calls w
               @ [(id_sub s, NotifyTransfer), (id_sub s, ResetLifeTimeCounter)]
               @ (if sendInitialValues then [(id_sub s, ResendInitialValues)] else [])
          \<and> map_of (subscriptions (engines w' E1)) (id_sub s) = None
          \<and> map_of (subscriptions (engines w' E2)) (id_sub s) = Some s'
          \<and> (\<exists>e1. send_notification_message dh now (transfer_notification s) True (engines w E1)
                      = Some e1
                  \<and> engines w' E1
                      = e1\<lparr> subscriptions := object_delete (id_sub s) (subscriptions e1) \<rparr>)
          \<and> engines w' E2 = (engines w E2)\<lparr> subscriptions :=
                object_set (id_sub s) s' (subscriptions (engines w E2)) \<rparr>
          \<and> (\<forall>E. E \<noteq> E1 \<and> E \<noteq> E2 \<longrightarrow> engines w' E = engines w E))
       \<and> (map_of (subscriptions (engines w E2)) (id_sub s) = None \<and> dh \<noteq> 0 \<longrightarrow>
            transferSubscription dh now s E2 sendInitialValues w \<noteq> None)"
  using transferSubscription_result[OF assms, of dh now sendInitialValues]
    transferSubscription_returns[OF assms, of dh now sendInitialValues]
  by blast

text \<open>
  Scenario S6 of the specification: the subscription of \<open>engine_with_request\<close> (engine 0)
  is transferred to engine 5 with \<open>sendInitialValues\<close>; the request pending on engine 0
  gets the status change.
\<close>

definition two_engines :: world where
  "two_engines =
     \<lparr> engines = (\<lambda>r. constructor None)(0 := engine_with_request), method_calls = [] \<rparr>"

theorem transferSubscription_moves_subscription_witness:
  "publishEngine (subscription_1\<lparr> publishEngine := Some 0 \<rparr>) = Some 0
   \<and> map_of (subscriptions (engines two_engines 0))
         (id_sub (subscription_1\<lparr> publishEngine := Some 0 \<rparr>))
       = Some (subscription_1\<lparr> publishEngine := Some 0 \<rparr>)
   \<and> (5::nat) \<noteq> 0
   \<and> map_of (subscriptions (engines two_engines 5))
         (id_sub (subscription_1\<lparr> publishEngine := Some 0 \<rparr>)) = None
   \<and> (7::nat) \<noteq> 0
   \<and> map_option fst (transferSubscription 7 500 (subscription_1\<lparr> publishEngine := Some 0 \<rparr>)
                        5 True two_engines)
       = Some (subscription_1\<lparr> publishEngine := Some 5 \<rparr>)
   \<and> map_option (\<lambda>r. (method_calls (snd r),
                        map fst (subscriptions (engines (snd r) 0)),
                        map fst (subscriptions (engines (snd r) 5)),
                        map (\<lambda>c. (fst c, map_option notificationData (notificationMessage (snd (snd c)))))
                          (callback_calls (engines (snd r) 0))))
         (transferSubscription 7 500 (subscription_1\<lparr> publishEngine := Some 0 \<rparr>)
            5 True two_engines)
       = Some ([(1, NotifyTransfer), (1, ResetLifeTimeCounter), (1, ResendInitialValues)],
               [], [1],
               [(Callback 1, Some [StatusChangeNotification GoodSubscriptionTransferred])])"
proof -
  let ?s = "subscription_1\<lparr> publishEngine := Some 0 \<rparr>"
  have h1: "publishEngine ?s = Some 0" by simp
  have h2: "map_of (subscriptions (engines two_engines 0)) (id_sub ?s) = Some ?s"
    by code_simp
  have h3: "(5::nat) \<noteq> 0" by simp
  have h4: "map_of (subscriptions (engines two_engines 5)) (id_sub ?s) = None"
    by code_simp
  have h5: "(7::nat) \<noteq> 0" by simp
  note t = transferSubscription_moves_subscription[OF h1 h2 h3, of 7 500 True]
  from t h4 h5 obtain s' w' where r: "transferSubscription 7 500 ?s 5 True two_engines = Some (s', w')"
    by fastforce
  with t have "s' = ?s\<lparr> publishEngine := Some 5 \<rparr>" by blast
  with r have a: "map_option fst (transferSubscription 7 500 ?s 5 True two_engines)
      = Some (subscription_1\<lparr> publishEngine := Some 5 \<rparr>)"
    by simp
  have b: "map_option (\<lambda>r. (method_calls (snd r),
                        map fst (subscriptions (engines (snd r) 0)),
                        map fst (subscriptions (engines (snd r) 5)),
                        map (\<lambda>c. (fst c, map_option notificationData (notificationMessage (snd (snd c)))))
                          (callback_calls (engines (snd r) 0))))
         (transferSubscription 7 500 ?s 5 True two_engines)
       = Some ([(1, NotifyTransfer), (1, ResetLifeTimeCounter), (1, ResendInitialValues)],
               [], [1],
               [(Callback 1, Some [StatusChangeNotification GoodSubscriptionTransferred])])"
    by code_simp
  from h1 h2 h3 h4 h5 a b show ?thesis by blast
qed

definition late_subscription :: "nat \<Rightarrow> nat \<Rightarrow> int \<Rightarrow> Subscription" where
  "late_subscription k p t =
     subscription_1\<lparr> id_sub := k, priority := p, timeToExpiration := t, state := LATE \<rparr>"

definition engine_two_late :: ServerSidePublishEngine where
  "engine_two_late =
     (case run 7 0
        [Add_subscription (late_subscription 1 2 10),
         Add_subscription (late_subscription 2 1 10)]
        (constructor None) of
        Some e \<Rightarrow> e
      | None \<Rightarrow> constructor None)"

text \<open>
  Claim C4. When the feed-late step of \<open>on_PublishRequest\<close> runs with a pending request,
  the subscription whose \<open>process_subscription\<close> is invoked is, if some subscription
  is late with no message sent yet, the one of those with the least
  \<open>timeToExpiration\<close>; otherwise, among the late subscriptions with publishing enabled,
  one of the greatest priority, and among those the one with the least
  \<open>timeToExpiration\<close>; and none when there is no candidate.

  The code does not do this. \<open>compare_subscriptions\<close> returns a boolean, which the sort
  reads as 1 or 0 and never as a negative number, so the sort leaves the late
  subscriptions in the order of their ids (\<open>findLateSubscriptionSortedByPriority_last\<close>)
  and the last of them is fed. Below, subscriptions 1 and 2 are late, have sent a
  message and have the same \<open>timeToExpiration\<close>; subscription 1 has priority 2,
  subscription 2 has priority 1. A request arrives, and \<open>process_subscription\<close> of
  subscription 2 is invoked.
\<close>

theorem feed_late_ignores_priority:
  "map (\<lambda>s. (id_sub s, priority s, timeToExpiration s, state s, publishingEnabled s, messageSent s))
      (map snd (subscriptions engine_two_late))
     = [(1, 2, 10, LATE, True, True), (2, 1, 10, LATE, True, True)]
   \<and> findSubscriptionWaitingForFirstPublish engine_two_late = None
   \<and> map_option id_sub (findLateSubscriptionSortedByPriority engine_two_late) = Some 2
   \<and> map_option subscription_calls
         (on_PublishRequest 7 100 request_1 (Some (Callback 1)) engine_two_late)
       = Some [(2, Process_subscription)]"
  by code_simp

end
